theory Spec2Isabelle
  imports Main "HOL-Library.Sublist"
begin

section \<open>The client session of node-opcua: data model\<close>

text \<open>
  A shallow embedding of \<^verbatim>\<open>packages/node-opcua-client/source/private/client_session_impl.ts\<close>
  (class \<^verbatim>\<open>ClientSessionImpl\<close>). The session is a record; every asynchronous call the
  session makes on a collaborator (the owning client's \<^verbatim>\<open>performMessageTransaction\<close>,
  \<^verbatim>\<open>closeSession\<close>, \<^verbatim>\<open>repair_client_session\<close>, \<^verbatim>\<open>once("session_restored")\<close>,
  \<^verbatim>\<open>setImmediate\<close>) is recorded as an outstanding entry that a later event completes, and
  every externally visible action is appended to a trace.
\<close>

subsection \<open>Requests, responses, errors\<close>

text \<open>The request classes the session file constructs or tests with \<^verbatim>\<open>instanceof\<close>.\<close>

datatype request_class =
    PublishRequest | ActivateSessionRequest | CloseSessionRequest
  | BrowseRequest | BrowseNextRequest | ReadRequest | HistoryReadRequest | WriteRequest
  | CallRequest | TranslateBrowsePathsToNodeIdsRequest | CreateSubscriptionRequest
  | DeleteSubscriptionsRequest | CreateMonitoredItemsRequest | RepublishRequest
  | RegisterNodesRequest | UnregisterNodesRequest | QueryFirstRequest

text \<open>\<^verbatim>\<open>request.constructor.name\<close>.\<close>

fun constructor_name :: "request_class \<Rightarrow> string" where
  "constructor_name PublishRequest = ''PublishRequest''"
| "constructor_name ActivateSessionRequest = ''ActivateSessionRequest''"
| "constructor_name CloseSessionRequest = ''CloseSessionRequest''"
| "constructor_name BrowseRequest = ''BrowseRequest''"
| "constructor_name BrowseNextRequest = ''BrowseNextRequest''"
| "constructor_name ReadRequest = ''ReadRequest''"
| "constructor_name HistoryReadRequest = ''HistoryReadRequest''"
| "constructor_name WriteRequest = ''WriteRequest''"
| "constructor_name CallRequest = ''CallRequest''"
| "constructor_name TranslateBrowsePathsToNodeIdsRequest = ''TranslateBrowsePathsToNodeIdsRequest''"
| "constructor_name CreateSubscriptionRequest = ''CreateSubscriptionRequest''"
| "constructor_name DeleteSubscriptionsRequest = ''DeleteSubscriptionsRequest''"
| "constructor_name CreateMonitoredItemsRequest = ''CreateMonitoredItemsRequest''"
| "constructor_name RepublishRequest = ''RepublishRequest''"
| "constructor_name RegisterNodesRequest = ''RegisterNodesRequest''"
| "constructor_name UnregisterNodesRequest = ''UnregisterNodesRequest''"
| "constructor_name QueryFirstRequest = ''QueryFirstRequest''"

text \<open>
  \<^verbatim>\<open>requestHeader.requestHandle\<close>: the constant \<^verbatim>\<open>requestHandleNotSetValue\<close> of the secure
  channel package is the constructor \<open>HandleNotSet\<close>.
\<close>

datatype request_handle = HandleNotSet | Handle nat

record request =
  request_class :: request_class
  requestHandle :: request_handle
  request_authenticationToken :: "nat option"
  payload :: nat

text \<open>
  A status code: \<open>Good\<close>, or any other code, carried with the text that
  \<^verbatim>\<open>StatusCode.toString()\<close> prints for it.
\<close>

datatype status_code = Good | NotGood string

fun isNot_Good :: "status_code \<Rightarrow> bool" where
  "isNot_Good Good = False"
| "isNot_Good (NotGood _) = True"

fun status_toString :: "status_code \<Rightarrow> string" where
  "status_toString Good = ''Good (0x00000000)''"
| "status_toString (NotGood txt) = txt"

datatype response_class =
    ReadResponse | WriteResponse | BrowseResponse | BrowseNextResponse | OtherResponse

text \<open>
  An entry of the \<^verbatim>\<open>results\<close> array of a response: a DataValue (read), a StatusCode (write)
  or a BrowseResult with its \<^verbatim>\<open>references\<close>, which may be missing.
\<close>

datatype result_value = DataValue nat | StatusCodeValue status_code | BrowseResult "nat list option"

record response =
  response_class :: response_class
  serviceResult :: status_code
  response_serviceDiagnostics :: "nat option"
  diagnosticInfos :: "nat option"
  results :: "result_value list option"

record error =
  message :: string
  serviceDiagnostics :: "nat option"
  diagnosticsInfo :: "nat option"

definition Error :: "string \<Rightarrow> error" where
  "Error msg = \<lparr>message = msg, serviceDiagnostics = None, diagnosticsInfo = None\<rparr>"

text \<open>\<^verbatim>\<open>err.message.match(/BadSessionIdInvalid/)\<close>: the pattern occurs somewhere in the message.\<close>

definition match_BadSessionIdInvalid :: "error \<Rightarrow> bool" where
  "match_BadSessionIdInvalid err = sublist ''BadSessionIdInvalid'' (message err)"

subsection \<open>Callbacks and the session record\<close>

text \<open>
  A callback handed to \<^verbatim>\<open>performMessageTransaction\<close> is either the caller's own completion
  or the closure that \<^verbatim>\<open>_defaultRequest\<close> builds around it. The caller's completion is
  opaque: invoking it is recorded in the trace, and it returns or it throws (the closures
  that \<^verbatim>\<open>write\<close>, \<^verbatim>\<open>readVariableValue\<close> and \<^verbatim>\<open>browse\<close> hand over throw when their
  \<^verbatim>\<open>assert\<close> fails); it does not call back into the session while it runs.
  \<^verbatim>\<open>_performMessageTransaction\<close> is given either such a callback or the closure of
  \<^verbatim>\<open>#reprocessRequest\<close>, which captures the attempt count and the callback.
\<close>

datatype callback = Caller nat | DefaultRequestClosure nat

datatype completion = Plain callback | ReprocessClosure nat callback

datatype action =
    Invoke nat "error option" "response option"
  | ChannelSend request
  | RepairClientSession
  | ClientCloseSession bool
  | Emit_session_closed status_code
  | PublishEngineTerminate
  | KeepAliveStop

text \<open>The owning client as far as the session reads it.\<close>

record client_base =
  secureChannel :: "bool option"
  client_isReconnecting :: bool

record session =
  client :: "client_base option"
  closed :: bool
  closeEventHasBeenEmitted :: bool
  publishEngine :: bool
  keepAliveManager :: bool
  reconnecting :: bool
  pendingTransactions :: "(request \<times> callback) list"
  recursive_repair_detector :: int
  authenticationToken :: "nat option"
  timeout :: int
  lastRequestSentTime :: int
  lastResponseReceivedTime :: int
  now :: int
  channel :: "(request \<times> completion) list"
  repairs :: "(request \<times> callback) list"
  closeSessions :: "nat list"
  session_restored_listeners :: "(nat \<times> request \<times> callback) list"
  immediates :: "(nat \<times> error) list"
  throws :: "nat \<Rightarrow> error option \<Rightarrow> response option \<Rightarrow> bool"
  exception :: bool
  trace :: "action list"

text \<open>
  Fields \<open>client\<close> to \<open>lastResponseReceivedTime\<close> are fields of the class
  (\<open>client\<close> is \<^verbatim>\<open>_client\<close>, \<open>None\<close> for \<^verbatim>\<open>null\<close>; \<open>secureChannel\<close> is \<open>None\<close> for a
  null channel and \<open>Some opened\<close> otherwise; \<open>reconnecting\<close> and \<open>pendingTransactions\<close> are
  the fields of \<^verbatim>\<open>_reconnecting\<close>; \<open>publishEngine\<close> and \<open>keepAliveManager\<close> say whether the
  object is there);
  \<open>now\<close> is the clock read by \<^verbatim>\<open>new Date()\<close> and \<^verbatim>\<open>Date.now()\<close> in milliseconds;
  \<open>channel\<close>, \<open>repairs\<close>, \<open>closeSessions\<close>, \<open>session_restored_listeners\<close> and \<open>immediates\<close>
  hold the callbacks the session has handed to the owning client, to
  \<^verbatim>\<open>repair_client_session\<close>, to \<^verbatim>\<open>closeSession\<close>, to \<^verbatim>\<open>once("session_restored")\<close> and to
  \<^verbatim>\<open>setImmediate\<close> and that have not run yet;
  \<open>throws c err response\<close> says whether the completion of caller \<open>c\<close> throws when it is
  called with \<^verbatim>\<open>(err, response)\<close>, and \<open>exception\<close> says that the completion called last
  has thrown: nothing in the session catches the exception, which ends the call of the
  session that was running.
\<close>

text \<open>
  The constructor. \<open>date0\<close> is the time stamp of \<^verbatim>\<open>new Date(1, 1, 1970)\<close>, which the
  constructor gives to both time fields; \<open>t\<close> is what the clock shows.
\<close>

definition new_session :: "client_base \<Rightarrow> int \<Rightarrow> int \<Rightarrow> session" where
  "new_session c date0 t =
     \<lparr>client = Some c, closed = False, closeEventHasBeenEmitted = False,
      publishEngine = False, keepAliveManager = False, reconnecting = False,
      pendingTransactions = [], recursive_repair_detector = 0,
      authenticationToken = None, timeout = 0,
      lastRequestSentTime = date0, lastResponseReceivedTime = date0, now = t,
      channel = [], repairs = [], closeSessions = [],
      session_restored_listeners = [], immediates = [],
      throws = (\<lambda>c err response. False), exception = False, trace = []\<rparr>"

subsection \<open>Getters\<close>

definition isReconnecting :: "session \<Rightarrow> bool" where
  "isReconnecting s =
     (case client s of
        Some c \<Rightarrow> client_isReconnecting c \<or> reconnecting s
      | None \<Rightarrow> False)"

definition isChannelValid :: "session \<Rightarrow> bool" where
  "isChannelValid s =
     (case client s of
        None \<Rightarrow> False
      | Some c \<Rightarrow> (case secureChannel c of None \<Rightarrow> False | Some opened \<Rightarrow> opened))"

definition hasBeenClosed :: "session \<Rightarrow> bool" where
  "hasBeenClosed s = (client s = None \<or> closed s \<or> closeEventHasBeenEmitted s)"

definition evaluateRemainingLifetime :: "session \<Rightarrow> int" where
  "evaluateRemainingLifetime s =
     (let expiryTime = lastRequestSentTime s + timeout s
      in max 0 (expiryTime - now s))"


section \<open>The transaction dispatcher\<close>

text \<open>
  \<^verbatim>\<open>#reprocessRequest\<close>, \<^verbatim>\<open>_performMessageTransaction\<close> (here \<open>u_performMessageTransaction\<close>)
  and the body of the closure of \<^verbatim>\<open>#reprocessRequest\<close> (here the second equation of
  \<open>complete\<close>) call each other: a transaction that fails before it reaches the channel
  completes synchronously, and its completion pops the next pending transaction, unless
  the callback has thrown: the statements after \<^verbatim>\<open>callback(err, response)\<close> are then not
  reached. Logging is left out.
\<close>

definition call :: "nat \<Rightarrow> error option \<Rightarrow> response option \<Rightarrow> session \<Rightarrow> session" where
  "call c err response s =
     s\<lparr>trace := trace s @ [Invoke c err response], exception := throws s c err response\<rparr>"

definition invoke :: "callback \<Rightarrow> error option \<Rightarrow> response option \<Rightarrow> session \<Rightarrow> session" where
  "invoke callback err response s =
     (case callback of
        Caller c \<Rightarrow> call c err response s
      | DefaultRequestClosure c \<Rightarrow>
          (case err of
             Some e \<Rightarrow> call c (Some e) response s
           | None \<Rightarrow> call c None response s))"

definition recreate_session_and_reperform_transaction ::
  "request \<Rightarrow> callback \<Rightarrow> session \<Rightarrow> session" where
  "recreate_session_and_reperform_transaction request callback s =
     (if recursive_repair_detector s \<ge> 1 then
        invoke callback (Some (Error ''Cannot recreate session'')) None s
      else
        s\<lparr>recursive_repair_detector := recursive_repair_detector s + 1,
          repairs := repairs s @ [(request, callback)],
          trace := trace s @ [RepairClientSession]\<rparr>)"

definition is_invalid_session_error :: "error option \<Rightarrow> bool" where
  "is_invalid_session_error err =
     (case err of Some e \<Rightarrow> match_BadSessionIdInvalid e | None \<Rightarrow> False)"

text \<open>
  The last two statements of \<^verbatim>\<open>_performMessageTransaction\<close>: stamp \<open>lastRequestSentTime\<close>
  and hand the request, with its closure, to \<^verbatim>\<open>_client.performMessageTransaction\<close>.
\<close>

definition send_to_channel :: "request \<Rightarrow> completion \<Rightarrow> session \<Rightarrow> session" where
  "send_to_channel request cb s =
     s\<lparr>lastRequestSentTime := now s,
       channel := channel s @ [(request, cb)],
       trace := trace s @ [ChannelSend request]\<rparr>"

function reprocessRequest :: "nat \<Rightarrow> request \<Rightarrow> callback \<Rightarrow> session \<Rightarrow> session"
  and u_performMessageTransaction :: "request \<Rightarrow> completion \<Rightarrow> session \<Rightarrow> session"
  and complete ::
    "completion \<Rightarrow> request \<Rightarrow> error option \<Rightarrow> response option \<Rightarrow> session \<Rightarrow> session"
where
  "reprocessRequest attemptCount request callback s =
     u_performMessageTransaction request (ReprocessClosure attemptCount callback) s"
| "u_performMessageTransaction request cb s =
     (if client s = None then
        complete cb request
          (Some (Error ''Session has been closed and should not be used to perform a transaction anymore''))
          None s
      else if \<not> isChannelValid s then
        complete cb request (Some (Error ''Invalid Channel BadConnectionClosed'')) None s
      else
        send_to_channel (request\<lparr>request_authenticationToken := authenticationToken s\<rparr>) cb s)"
| "complete (Plain callback) request err response s = invoke callback err response s"
| "complete (ReprocessClosure attemptCount callback) request err response s =
     (if is_invalid_session_error err
         \<and> constructor_name (request_class request) \<noteq> ''ActivateSessionRequest'' then
        (let request' = request\<lparr>requestHandle := HandleNotSet\<rparr>
         in if isReconnecting s then
              s\<lparr>session_restored_listeners :=
                   session_restored_listeners s @ [(attemptCount, request', callback)]\<rparr>
            else recreate_session_and_reperform_transaction request' callback s)
      else
        (let s' = invoke callback err response s
         in if exception s' then s'
            else
              (case pendingTransactions s' of
                 [] \<Rightarrow> s'
               | (request2, callback2) # rest \<Rightarrow>
                   reprocessRequest 0 request2 callback2 (s'\<lparr>pendingTransactions := rest\<rparr>))))"
  by pat_completeness auto
termination
  by (relation "measure (\<lambda>x. case x of
          Inl (n, r, c, s) \<Rightarrow> 3 * length (pendingTransactions s) + 2
        | Inr (Inl (r, k, s)) \<Rightarrow> 3 * length (pendingTransactions s) + 1
        | Inr (Inr (k, r, e, rsp, s)) \<Rightarrow> 3 * length (pendingTransactions s))")
     (auto simp: invoke_def call_def split: callback.splits option.splits)


declare reprocessRequest.simps [simp del] u_performMessageTransaction.simps [simp del]
  complete.simps [simp del]

text \<open>
  The closure that \<^verbatim>\<open>_performMessageTransaction\<close> hands to the owning client: it stamps
  \<open>lastResponseReceivedTime\<close>, copies diagnostics onto the error and turns a service
  result other than Good into an error.
\<close>

definition attach_diagnostics :: "error \<Rightarrow> response option \<Rightarrow> error" where
  "attach_diagnostics err response =
     (let err1 = (case response of
                    Some r \<Rightarrow> (case response_serviceDiagnostics r of
                                 Some d \<Rightarrow> err\<lparr>serviceDiagnostics := Some d\<rparr>
                               | None \<Rightarrow> err)
                  | None \<Rightarrow> err)
      in case response of
           Some r \<Rightarrow> (case diagnosticInfos r of
                        Some d \<Rightarrow> err1\<lparr>diagnosticsInfo := Some d\<rparr>
                      | None \<Rightarrow> err1)
         | None \<Rightarrow> err1)"

definition channel_callback ::
  "completion \<Rightarrow> request \<Rightarrow> error option \<Rightarrow> response option \<Rightarrow> session \<Rightarrow> session" where
  "channel_callback cb request err response s =
     (let s1 = s\<lparr>lastResponseReceivedTime := now s\<rparr>
      in case err of
           Some e \<Rightarrow> complete cb request (Some (attach_diagnostics e response)) None s1
         | None \<Rightarrow>
             (case response of
                None \<Rightarrow> complete cb request (Some (Error ''internal Error'')) None s1
              | Some r \<Rightarrow>
                  if isNot_Good (serviceResult r) then
                    complete cb request
                      (Some (attach_diagnostics
                         (Error ('' ServiceResult is '' @ status_toString (serviceResult r)
                                 @ '' request was '' @ constructor_name (request_class request)))
                         (Some r)))
                      (Some r) s1
                  else complete cb request None (Some r) s1))"

definition privileged :: "request \<Rightarrow> bool" where
  "privileged request =
     (request_class request = PublishRequest
      \<or> request_class request = ActivateSessionRequest
      \<or> request_class request = CloseSessionRequest)"

definition performMessageTransaction :: "request \<Rightarrow> callback \<Rightarrow> session \<Rightarrow> session" where
  "performMessageTransaction request callback s =
     (if client s = None then
        invoke callback
          (Some (Error ''Session has been closed and should not be used to perform a transaction anymore''))
          None s
      else if privileged request then
        u_performMessageTransaction request (Plain callback) s
      else if length (pendingTransactions s) > 0 then
        s\<lparr>pendingTransactions := pendingTransactions s @ [(request, callback)]\<rparr>
      else reprocessRequest 0 request callback s)"

text \<open>\<^verbatim>\<open>_defaultRequest\<close>; \<^verbatim>\<open>setImmediate\<close> defers the failure to a later turn.\<close>

definition defaultRequest :: "request \<Rightarrow> nat \<Rightarrow> session \<Rightarrow> session" where
  "defaultRequest request c s =
     (if closeEventHasBeenEmitted s then
        s\<lparr>immediates := immediates s @ [(c, Error ''ClientSession is closed !'')]\<rparr>
      else performMessageTransaction request (DefaultRequestClosure c) s)"

section \<open>Repair\<close>

text \<open>The callback that \<^verbatim>\<open>#_recreate_session_and_reperform_transaction\<close> gives to
  \<^verbatim>\<open>repair_client_session\<close>.\<close>

definition repair_callback :: "request \<Rightarrow> callback \<Rightarrow> error option \<Rightarrow> session \<Rightarrow> session" where
  "repair_callback request callback err s =
     (let s1 = s\<lparr>recursive_repair_detector := recursive_repair_detector s - 1\<rparr>
      in case err of
           Some e \<Rightarrow> invoke callback (Some e) None s1
         | None \<Rightarrow> u_performMessageTransaction request (Plain callback) s1)"

text \<open>
  \<^verbatim>\<open>emit("session_restored")\<close> calls the listeners that are registered when it starts, in
  registration order; a listener of \<^verbatim>\<open>once\<close> is removed when it is called. When a listener
  throws, the listeners after it are not called and stay registered (\<open>exception\<close> is
  cleared before a listener runs, so that it tells whether this listener has thrown).
\<close>

fun redo :: "(nat \<times> request \<times> callback) list \<Rightarrow> session \<Rightarrow> session" where
  "redo [] s = s"
| "redo ((attemptCount, request, callback) # ls) s =
     (let s1 = s\<lparr>session_restored_listeners :=
                   remove1 (attemptCount, request, callback) (session_restored_listeners s),
                 exception := False\<rparr>;
          s2 = reprocessRequest (attemptCount + 1) request callback s1
      in if exception s2 then s2 else redo ls s2)"

definition emit_session_restored :: "session \<Rightarrow> session" where
  "emit_session_restored s = redo (session_restored_listeners s) s"

section \<open>Closing\<close>

definition emitCloseEvent :: "status_code \<Rightarrow> session \<Rightarrow> session" where
  "emitCloseEvent statusCode s =
     (if \<not> closeEventHasBeenEmitted s then
        s\<lparr>closeEventHasBeenEmitted := True,
          trace := trace s @ [Emit_session_closed statusCode]\<rparr>
      else s)"

definition terminatePublishEngine :: "session \<Rightarrow> session" where
  "terminatePublishEngine s =
     (if publishEngine s then
        s\<lparr>publishEngine := False, trace := trace s @ [PublishEngineTerminate]\<rparr>
      else s)"

definition stopKeepAliveManager :: "session \<Rightarrow> session" where
  "stopKeepAliveManager s =
     (if keepAliveManager s then
        s\<lparr>keepAliveManager := False, trace := trace s @ [KeepAliveStop]\<rparr>
      else s)"

definition close :: "bool \<Rightarrow> nat \<Rightarrow> session \<Rightarrow> session" where
  "close deleteSubscription c s =
     (if client s = None then call c None None s
      else
        (let s1 = terminatePublishEngine s
         in s1\<lparr>closeSessions := closeSessions s1 @ [c],
               trace := trace s1 @ [ClientCloseSession deleteSubscription]\<rparr>))"

text \<open>\<^verbatim>\<open>dispose\<close>; \<open>None\<close> is the failed assertion on the close event.\<close>

definition dispose :: "session \<Rightarrow> session option" where
  "dispose s =
     (if \<not> closeEventHasBeenEmitted s then None
      else Some ((stopKeepAliveManager (terminatePublishEngine s))
                   \<lparr>session_restored_listeners := []\<rparr>))"

text \<open>
  Modelled from the spec: the owning client's \<^verbatim>\<open>closeSession\<close>, which is not in the session
  file. The spec has \<^verbatim>\<open>close\<close> request "session closure from the owning client" and "only
  then" mark the session closed, with \<^verbatim>\<open>session_closed\<close> emitted at most once and the session
  "destroyed on close": on completion the close event is emitted with Good, the session is
  detached from its client and marked closed, it is disposed, and the callback that
  \<^verbatim>\<open>close\<close> handed over runs (it calls the caller's callback without arguments).
\<close>

definition closeSession_completed :: "nat \<Rightarrow> session \<Rightarrow> session" where
  "closeSession_completed c s =
     (let s1 = emitCloseEvent Good s;
          s2 = s1\<lparr>client := None, closed := True\<rparr>;
          s3 = (case dispose s2 of Some s' \<Rightarrow> s' | None \<Rightarrow> s2)
      in call c None None s3)"

section \<open>Per-service operations\<close>




text \<open>\<^verbatim>\<open>isArray ? results : results[0]\<close>; \<open>Single None\<close> is \<^verbatim>\<open>undefined\<close>.\<close>

datatype delivered = Single "result_value option" | Several "result_value list"

definition first_result :: "result_value list \<Rightarrow> result_value option" where
  "first_result rs = (case rs of [] \<Rightarrow> None | r # _ \<Rightarrow> Some r)"


definition reshape :: "bool \<Rightarrow> result_value list \<Rightarrow> delivered" where
  "reshape is_array rs = (if is_array then Several rs else Single (first_result rs))"








section \<open>Events\<close>

text \<open>
  What can happen to a session: a call of its interface, the completion of something it
  handed to a collaborator, or a change of what it reads from its surroundings (the owning
  client and its channel, the reconnection flag, the clock, the session timeout, what the
  completions of the callers do). \<^verbatim>\<open>_reconnecting\<close> is a public field, which the interface
  \<^verbatim>\<open>Reconnectable\<close> gives to the reconnection code of the client package; the session file
  itself pushes a transaction only onto a queue that is not empty. \<open>PushPending\<close> is that
  code appending a transaction to \<^verbatim>\<open>_reconnecting.pendingTransactions\<close>.
\<close>

datatype event =
    PerformMessageTransaction request callback
  | DefaultRequest request nat
  | Close bool nat
  | EmitCloseEvent status_code
  | Dispose
  | ChannelResponse nat "error option" "response option"
  | RepairDone nat "error option"
  | CloseSessionDone nat
  | SessionRestored
  | Immediate
  | SetClient "client_base option"
  | SetReconnecting bool
  | SetTimeout int
  | Tick nat
  | PushPending request callback
  | SetThrows "nat \<Rightarrow> error option \<Rightarrow> response option \<Rightarrow> bool"

definition remove_nth :: "nat \<Rightarrow> 'a list \<Rightarrow> 'a list" where
  "remove_nth i xs = take i xs @ drop (Suc i) xs"

fun step :: "event \<Rightarrow> session \<Rightarrow> session" where
  "step (PerformMessageTransaction request callback) s =
     performMessageTransaction request callback s"
| "step (DefaultRequest request c) s = defaultRequest request c s"
| "step (Close deleteSubscription c) s = close deleteSubscription c s"
| "step (EmitCloseEvent statusCode) s = emitCloseEvent statusCode s"
| "step Dispose s = (case dispose s of Some s' \<Rightarrow> s' | None \<Rightarrow> s)"
| "step (ChannelResponse i err response) s =
     (if i < length (channel s) then
        (case channel s ! i of
           (request, cb) \<Rightarrow>
             channel_callback cb request err response
               (s\<lparr>channel := remove_nth i (channel s)\<rparr>))
      else s)"
| "step (RepairDone i err) s =
     (if i < length (repairs s) then
        (case repairs s ! i of
           (request, callback) \<Rightarrow>
             repair_callback request callback err (s\<lparr>repairs := remove_nth i (repairs s)\<rparr>))
      else s)"
| "step (CloseSessionDone i) s =
     (if i < length (closeSessions s) then
        closeSession_completed (closeSessions s ! i)
          (s\<lparr>closeSessions := remove_nth i (closeSessions s)\<rparr>)
      else s)"
| "step SessionRestored s = emit_session_restored s"
| "step Immediate s =
     (case immediates s of
        [] \<Rightarrow> s
      | (c, e) # rest \<Rightarrow> call c (Some e) None (s\<lparr>immediates := rest\<rparr>))"
| "step (SetClient c) s = s\<lparr>client := c\<rparr>"
| "step (SetReconnecting b) s = s\<lparr>reconnecting := b\<rparr>"
| "step (SetTimeout t) s = s\<lparr>timeout := t\<rparr>"
| "step (Tick d) s = s\<lparr>now := now s + int d\<rparr>"
| "step (PushPending request callback) s =
     s\<lparr>pendingTransactions := pendingTransactions s @ [(request, callback)]\<rparr>"
| "step (SetThrows f) s = s\<lparr>throws := f\<rparr>"

fun run :: "event list \<Rightarrow> session \<Rightarrow> session" where
  "run [] s = s"
| "run (e # es) s = run es (step e s)"

section \<open>Notions used in the statements\<close>

text \<open>The caller whose completion a callback ends up calling.\<close>

definition caller_of :: "callback \<Rightarrow> nat" where
  "caller_of cb = (case cb of Caller c \<Rightarrow> c | DefaultRequestClosure c \<Rightarrow> c)"

text \<open>The error of a transaction that \<^verbatim>\<open>_performMessageTransaction\<close> does not send.\<close>

definition sync_error :: "session \<Rightarrow> error" where
  "sync_error s =
     (if client s = None then
        Error ''Session has been closed and should not be used to perform a transaction anymore''
      else Error ''Invalid Channel BadConnectionClosed'')"

definition failed_with :: "error \<Rightarrow> request \<times> callback \<Rightarrow> action" where
  "failed_with e t = Invoke (caller_of (snd t)) (Some e) None"

text \<open>
  Transactions that fail one after the other with the same error: each is off the queue
  when its completion is called, and a completion that throws ends it.
\<close>

fun fail_in_order :: "error \<Rightarrow> (request \<times> callback) list \<Rightarrow> session \<Rightarrow> session" where
  "fail_in_order e [] s = s"
| "fail_in_order e (t # q) s =
     (let s' = call (caller_of (snd t)) (Some e) None (s\<lparr>pendingTransactions := q\<rparr>)
      in if exception s' then s' else fail_in_order e q s')"

text \<open>
  The transactions dispatched by \<^verbatim>\<open>#reprocessRequest\<close> that have not completed: those in
  flight on the channel with its closure, and those waiting for \<^verbatim>\<open>session_restored\<close>.
\<close>

fun is_reprocess :: "request \<times> completion \<Rightarrow> bool" where
  "is_reprocess (_, ReprocessClosure _ _) = True"
| "is_reprocess (_, Plain _) = False"

definition workers :: "session \<Rightarrow> nat" where
  "workers s = length (filter is_reprocess (channel s)) + length (session_restored_listeners s)"


text \<open>
  The repair guard counts the calls of \<^verbatim>\<open>repair_client_session\<close> that have not called back,
  and there is at most one.
\<close>

definition repair_inv :: "session \<Rightarrow> bool" where
  "repair_inv s =
     (recursive_repair_detector s = int (length (repairs s)) \<and> length (repairs s) \<le> 1)"

text \<open>
  One step under which \<open>single_flight\<close> is kept: an empty queue stays empty, and the
  number of outstanding dispatched transactions does not grow while the queue is not empty.
\<close>

definition sf_step :: "session \<Rightarrow> session \<Rightarrow> bool" where
  "sf_step s s' =
     ((pendingTransactions s = [] \<longrightarrow> pendingTransactions s' = [])
      \<and> (pendingTransactions s' = [] \<or> workers s' \<le> workers s))"

text \<open>The same, for a function that may dispatch up to \<open>k\<close> transactions.\<close>

definition grows_by :: "nat \<Rightarrow> session \<Rightarrow> session \<Rightarrow> bool" where
  "grows_by k s s' =
     ((pendingTransactions s = [] \<longrightarrow> pendingTransactions s' = [])
      \<and> (pendingTransactions s' = [] \<or> workers s' \<le> workers s + k))"



text \<open>
  The discipline of the pending queue in one step: transactions leave it at the head, or
  one transaction joins it at the tail.
\<close>

definition dequeues :: "session \<Rightarrow> session \<Rightarrow> bool" where
  "dequeues s s' = suffix (pendingTransactions s') (pendingTransactions s)"


fun is_close_event :: "action \<Rightarrow> bool" where
  "is_close_event (Emit_session_closed _) = True"
| "is_close_event _ = False"

text \<open>How often \<^verbatim>\<open>session_closed\<close> has been emitted, and its relation to the flag.\<close>

definition close_events :: "session \<Rightarrow> nat" where
  "close_events s = length (filter is_close_event (trace s))"

definition close_inv :: "session \<Rightarrow> bool" where
  "close_inv s = (close_events s \<le> 1 \<and> (close_events s = 1 \<longrightarrow> closeEventHasBeenEmitted s))"

text \<open>The flag and the number of close events: what the dispatcher leaves alone.\<close>

definition cl :: "session \<Rightarrow> bool \<times> nat" where
  "cl s = (closeEventHasBeenEmitted s, close_events s)"

fun is_network_action :: "action \<Rightarrow> bool" where
  "is_network_action (ChannelSend _) = True"
| "is_network_action (ClientCloseSession _) = True"
| "is_network_action RepairClientSession = True"
| "is_network_action _ = False"

text \<open>
  The test of the closure of \<^verbatim>\<open>#reprocessRequest\<close> that routes a failure to the wait for
  \<^verbatim>\<open>session_restored\<close> or to the repair instead of completing the caller.
\<close>

definition routed :: "request \<Rightarrow> error option \<Rightarrow> bool" where
  "routed request err =
     (is_invalid_session_error err
      \<and> constructor_name (request_class request) \<noteq> ''ActivateSessionRequest'')"

subsection \<open>Sessions, requests and results for the examples\<close>

definition a_client :: client_base where
  "a_client = \<lparr>secureChannel = Some True, client_isReconnecting = False\<rparr>"

definition a_request :: "request_class \<Rightarrow> nat \<Rightarrow> request" where
  "a_request k p =
     \<lparr>request_class = k, requestHandle = Handle p, request_authenticationToken = None,
      payload = p\<rparr>"

definition a_response :: "response_class \<Rightarrow> result_value list option \<Rightarrow> response" where
  "a_response k rs =
     \<lparr>response_class = k, serviceResult = Good, response_serviceDiagnostics = None,
      diagnosticInfos = None, results = rs\<rparr>"

definition invalid_session :: error where
  "invalid_session = Error ''BadSessionIdInvalid (0x80250000)''"

text \<open>A session whose client is gone, with the close event emitted.\<close>

definition closed_session :: session where
  "closed_session =
     (new_session a_client 0 0)
       \<lparr>client := None, closed := True, closeEventHasBeenEmitted := True,
        pendingTransactions := [(a_request WriteRequest 4, Caller 4)]\<rparr>"

text \<open>A session on an open channel with one pending transaction.\<close>

definition queueing_session :: session where
  "queueing_session =
     (new_session a_client 0 0)
       \<lparr>pendingTransactions := [(a_request WriteRequest 4, Caller 4)], now := 5,
        authenticationToken := Some 11\<rparr>"

text \<open>A session whose channel is not open.\<close>

definition broken_session :: session where
  "broken_session =
     (new_session a_client 0 0)
       \<lparr>client := Some \<lparr>secureChannel = Some False, client_isReconnecting = False\<rparr>,
        now := 5\<rparr>"

text \<open>A session in which a repair is under way.\<close>

definition repairing_session :: session where
  "repairing_session =
     (new_session a_client 0 0)
       \<lparr>recursive_repair_detector := 1,
        repairs := [((a_request WriteRequest 1)\<lparr>requestHandle := HandleNotSet\<rparr>, Caller 3)]\<rparr>"

text \<open>
  A session with two pending transactions and the transaction that was dispatched before
  them still in flight: a browse is submitted on a new session, then the reconnection
  code pushes a write and a read.
\<close>

definition draining_session :: session where
  "draining_session =
     run [PerformMessageTransaction (a_request BrowseRequest 3) (Caller 3),
          PushPending (a_request WriteRequest 4) (Caller 4),
          PushPending (a_request ReadRequest 5) (Caller 5)]
       (new_session a_client 0 5)"

text \<open>The same after the channel has been lost.\<close>

definition broken_draining_session :: session where
  "broken_draining_session =
     run [SetClient (Some \<lparr>secureChannel = Some False, client_isReconnecting = False\<rparr>)]
       draining_session"

text \<open>
  The same session when the completion of caller 4 throws whatever it is called with.
\<close>

definition throwing_session :: session where
  "throwing_session = run [SetThrows (\<lambda>c err response. c = 4)] broken_draining_session"


text \<open>A session whose client is gone before any close event.\<close>

definition detached_session :: session where
  "detached_session = (new_session a_client 0 0)\<lparr>client := None\<rparr>"


text \<open>A session on which \<^verbatim>\<open>close\<close> has been called and the owning client has not answered.\<close>

definition closing_session :: session where
  "closing_session = run [Close True 1] (new_session a_client 0 5)"

text \<open>A session whose close event has been emitted while it still has its client.\<close>

definition emitted_session :: session where
  "emitted_session = run [EmitCloseEvent Good] (new_session a_client 0 5)"

section \<open>Closed forms of the dispatcher\<close>

lemma invoke_call: "invoke cb err response s = call (caller_of cb) err response s"
  by (cases cb) (auto simp: invoke_def caller_of_def split: option.splits)

lemma closed_message_no_match:
  "\<not> is_invalid_session_error
       (Some (Error ''Session has been closed and should not be used to perform a transaction anymore''))"
  unfolding is_invalid_session_error_def match_BadSessionIdInvalid_def Error_def
  by simp code_simp

lemma invalid_channel_message_no_match:
  "\<not> is_invalid_session_error (Some (Error ''Invalid Channel BadConnectionClosed''))"
  unfolding is_invalid_session_error_def match_BadSessionIdInvalid_def Error_def
  by simp code_simp

lemma sync_error_no_match: "\<not> is_invalid_session_error (Some (sync_error s))"
  by (simp add: sync_error_def closed_message_no_match invalid_channel_message_no_match)

lemma isChannelValid_client: "isChannelValid s \<Longrightarrow> client s \<noteq> None"
  by (auto simp: isChannelValid_def split: option.splits)

lemma u_perform_fail:
  "\<not> isChannelValid s \<Longrightarrow>
   u_performMessageTransaction request cb s = complete cb request (Some (sync_error s)) None s"
  by (simp add: u_performMessageTransaction.simps sync_error_def)

lemma u_perform_send:
  "isChannelValid s \<Longrightarrow>
   u_performMessageTransaction request cb s =
     send_to_channel (request\<lparr>request_authenticationToken := authenticationToken s\<rparr>) cb s"
  by (simp add: u_performMessageTransaction.simps isChannelValid_client)

lemma exception_call [simp]: "exception (call c e rsp s) = throws s c e rsp"
  by (simp add: call_def)

lemma throws_call [simp]: "throws (call c e rsp s) = throws s"
  by (simp add: call_def)

lemma pending_call [simp]: "pendingTransactions (call c e rsp s) = pendingTransactions s"
  by (simp add: call_def)

lemma same_queue: "pendingTransactions s = q \<Longrightarrow> s\<lparr>pendingTransactions := q\<rparr> = s"
  by auto

lemma reprocess_fail_aux:
  "\<not> isChannelValid s \<Longrightarrow> pendingTransactions s = q \<Longrightarrow>
   reprocessRequest n r c s = fail_in_order (sync_error s) ((r, c) # q) s"
proof (induction q arbitrary: n r c s)
  case Nil
  then show ?case
    by (simp add: reprocessRequest.simps u_perform_fail complete.simps sync_error_no_match
        invoke_call same_queue Let_def)
next
  case (Cons t q)
  obtain r2 c2 where t: "t = (r2, c2)" by (cases t)
  let ?s0 = "call (caller_of c) (Some (sync_error s)) None s"
  let ?s' = "?s0\<lparr>pendingTransactions := q\<rparr>"
  have nv: "\<not> isChannelValid ?s'" using Cons.prems(1) by (simp add: isChannelValid_def call_def)
  have pq: "pendingTransactions ?s' = q" by simp
  have se: "sync_error ?s' = sync_error s" "sync_error ?s0 = sync_error s"
    by (simp_all add: sync_error_def call_def)
  have sq: "s\<lparr>pendingTransactions := t # q\<rparr> = s"
    using Cons.prems(2) by (rule same_queue)
  have l: "reprocessRequest n r c s
        = (if throws s (caller_of c) (Some (sync_error s)) None then ?s0
           else reprocessRequest 0 r2 c2 ?s')"
    using Cons.prems
    by (simp add: reprocessRequest.simps [of n] u_perform_fail complete.simps sync_error_no_match
        invoke_call t)
  have "reprocessRequest 0 r2 c2 ?s' = fail_in_order (sync_error ?s') ((r2, c2) # q) ?s'"
    by (rule Cons.IH [OF nv pq])
  then have i: "reprocessRequest 0 r2 c2 ?s' = fail_in_order (sync_error s) (t # q) ?s0"
    by (simp add: se t)
  show ?case
    by (simp add: l i sq Let_def)
qed

lemma reprocess_fail:
  "\<not> isChannelValid s \<Longrightarrow>
   reprocessRequest n r c s = fail_in_order (sync_error s) ((r, c) # pendingTransactions s) s"
  by (rule reprocess_fail_aux) simp_all

lemma fail_in_order_frame:
  "repairs (fail_in_order e q s) = repairs s"
  "recursive_repair_detector (fail_in_order e q s) = recursive_repair_detector s"
  "session_restored_listeners (fail_in_order e q s) = session_restored_listeners s"
  "closeEventHasBeenEmitted (fail_in_order e q s) = closeEventHasBeenEmitted s"
  "client (fail_in_order e q s) = client s"
  "closeSessions (fail_in_order e q s) = closeSessions s"
  "channel (fail_in_order e q s) = channel s"
  "lastRequestSentTime (fail_in_order e q s) = lastRequestSentTime s"
  "throws (fail_in_order e q s) = throws s"
  by (induction q arbitrary: s; simp add: Let_def call_def)+

lemma fail_in_order_trace:
  "\<exists>k. trace (fail_in_order e q s) = trace s @ map (failed_with e) (take k q)"
proof (induction q arbitrary: s)
  case Nil
  then show ?case by simp
next
  case (Cons t q)
  let ?s' = "call (caller_of (snd t)) (Some e) None (s\<lparr>pendingTransactions := q\<rparr>)"
  have t: "trace ?s' = trace s @ [failed_with e t]"
    by (simp add: call_def failed_with_def)
  show ?case
  proof (cases "exception ?s'")
    case True
    then have "trace (fail_in_order e (t # q) s) = trace s @ map (failed_with e) (take 1 (t # q))"
      by (simp add: Let_def t)
    then show ?thesis by blast
  next
    case False
    obtain k where "trace (fail_in_order e q ?s') = trace ?s' @ map (failed_with e) (take k q)"
      using Cons.IH by blast
    then have "trace (fail_in_order e (t # q) s)
          = trace s @ map (failed_with e) (take (Suc k) (t # q))"
      using False by (simp add: Let_def t)
    then show ?thesis by blast
  qed
qed

lemma fail_in_order_pending:
  "suffix (pendingTransactions (fail_in_order e (t # q) s)) q"
proof (induction q arbitrary: t s)
  case Nil
  then show ?case by (simp add: Let_def)
next
  case (Cons u q)
  let ?s' = "call (caller_of (snd t)) (Some e) None (s\<lparr>pendingTransactions := u # q\<rparr>)"
  show ?case
  proof (cases "exception ?s'")
    case True
    then show ?thesis by (simp add: Let_def)
  next
    case False
    have "suffix (pendingTransactions (fail_in_order e (u # q) ?s')) q" by (rule Cons.IH)
    then have "suffix (pendingTransactions (fail_in_order e (u # q) ?s')) (u # q)"
      by (rule suffix_ConsI)
    then show ?thesis using False by (simp add: Let_def del: fail_in_order.simps(2))
         (simp add: Let_def)
  qed
qed

text \<open>When no completion throws, all of them are called.\<close>

lemma fail_in_order_all:
  "\<forall>t\<in>set q. \<not> throws s (caller_of (snd t)) (Some e) None \<Longrightarrow> q \<noteq> [] \<Longrightarrow>
   fail_in_order e q s
     = s\<lparr>pendingTransactions := [], trace := trace s @ map (failed_with e) q,
         exception := False\<rparr>"
proof (induction q arbitrary: s)
  case Nil
  then show ?case by simp
next
  case (Cons t q)
  let ?s' = "call (caller_of (snd t)) (Some e) None (s\<lparr>pendingTransactions := q\<rparr>)"
  have nt: "\<not> exception ?s'" using Cons.prems(1) by simp
  show ?case
  proof (cases q)
    case Nil
    then show ?thesis using nt by (simp add: Let_def call_def failed_with_def)
  next
    case (Cons u q')
    have "\<forall>t\<in>set q. \<not> throws ?s' (caller_of (snd t)) (Some e) None"
      using Cons.prems(1) by simp
    then have "fail_in_order e q ?s'
        = ?s'\<lparr>pendingTransactions := [], trace := trace ?s' @ map (failed_with e) q,
              exception := False\<rparr>"
      using Cons by (intro Cons.IH) simp_all
    then show ?thesis using nt by (simp add: Let_def call_def failed_with_def)
  qed
qed

lemma reprocess_send:
  "isChannelValid s \<Longrightarrow>
   reprocessRequest n r c s =
     send_to_channel (r\<lparr>request_authenticationToken := authenticationToken s\<rparr>)
       (ReprocessClosure n c) s"
  by (simp add: reprocessRequest.simps u_perform_send)

text \<open>The branch of the closure of \<^verbatim>\<open>#reprocessRequest\<close> that completes the caller.\<close>

lemma complete_not_routed:
  "\<not> routed request err \<Longrightarrow>
   complete (ReprocessClosure n c) request err response s =
     (if throws s (caller_of c) err response then call (caller_of c) err response s
      else
        (case pendingTransactions s of
           [] \<Rightarrow> call (caller_of c) err response s
         | (r2, c2) # rest \<Rightarrow>
             reprocessRequest 0 r2 c2
               ((call (caller_of c) err response s)\<lparr>pendingTransactions := rest\<rparr>)))"
  by (auto simp: routed_def complete.simps invoke_call split: list.splits)

lemma complete_routed:
  "routed request err \<Longrightarrow>
   complete (ReprocessClosure n c) request err response s =
     (if isReconnecting s then
        s\<lparr>session_restored_listeners :=
             session_restored_listeners s @ [(n, request\<lparr>requestHandle := HandleNotSet\<rparr>, c)]\<rparr>
      else recreate_session_and_reperform_transaction
             (request\<lparr>requestHandle := HandleNotSet\<rparr>) c s)"
  by (auto simp: routed_def complete.simps)

lemma constructor_name_Activate:
  "constructor_name k = ''ActivateSessionRequest'' \<longleftrightarrow> k = ActivateSessionRequest"
  by (cases k) simp_all

lemma reprocess_cases:
  "reprocessRequest n r c s =
     (if isChannelValid s then
        send_to_channel (r\<lparr>request_authenticationToken := authenticationToken s\<rparr>)
          (ReprocessClosure n c) s
      else fail_in_order (sync_error s) ((r, c) # pendingTransactions s) s)"
  by (simp add: reprocess_fail reprocess_send)

lemma reprocess_frame:
  "repairs (reprocessRequest n r c s) = repairs s"
  "recursive_repair_detector (reprocessRequest n r c s) = recursive_repair_detector s"
  "session_restored_listeners (reprocessRequest n r c s) = session_restored_listeners s"
  "closeEventHasBeenEmitted (reprocessRequest n r c s) = closeEventHasBeenEmitted s"
  "client (reprocessRequest n r c s) = client s"
  "closeSessions (reprocessRequest n r c s) = closeSessions s"
  "throws (reprocessRequest n r c s) = throws s"
  by (simp_all add: reprocess_cases send_to_channel_def fail_in_order_frame
      del: fail_in_order.simps)

lemma reprocess_trace: "\<exists>rest. trace (reprocessRequest n r c s) = trace s @ rest"
  using fail_in_order_trace [of "sync_error s" "(r, c) # pendingTransactions s" s]
  by (auto simp: reprocess_cases send_to_channel_def simp del: fail_in_order.simps)

lemma complete_not_routed_frame:
  assumes "\<not> routed request err"
  shows "repairs (complete (ReprocessClosure n c) request err response s) = repairs s"
    and "recursive_repair_detector (complete (ReprocessClosure n c) request err response s)
           = recursive_repair_detector s"
    and "session_restored_listeners (complete (ReprocessClosure n c) request err response s)
           = session_restored_listeners s"
    and "\<exists>rest. trace (complete (ReprocessClosure n c) request err response s)
           = trace s @ Invoke (caller_of c) err response # rest"
proof -
  let ?s0 = "call (caller_of c) err response s"
  have f: "repairs ?s0 = repairs s" "recursive_repair_detector ?s0 = recursive_repair_detector s"
    "session_restored_listeners ?s0 = session_restored_listeners s"
    "trace ?s0 = trace s @ [Invoke (caller_of c) err response]"
    by (simp_all add: call_def)
  show "repairs (complete (ReprocessClosure n c) request err response s) = repairs s"
    and "recursive_repair_detector (complete (ReprocessClosure n c) request err response s)
           = recursive_repair_detector s"
    and "session_restored_listeners (complete (ReprocessClosure n c) request err response s)
           = session_restored_listeners s"
    using assms by (simp_all add: complete_not_routed reprocess_frame f split: list.splits)
  have "\<exists>rest. trace (reprocessRequest 0 r2 c2 (?s0\<lparr>pendingTransactions := q\<rparr>))
          = trace s @ Invoke (caller_of c) err response # rest" for r2 c2 q
    using reprocess_trace [of 0 r2 c2 "?s0\<lparr>pendingTransactions := q\<rparr>"] by (auto simp: f)
  then show "\<exists>rest. trace (complete (ReprocessClosure n c) request err response s)
           = trace s @ Invoke (caller_of c) err response # rest"
    using assms by (simp add: complete_not_routed f split: list.splits)
qed

lemma message_attach_diagnostics [simp]: "message (attach_diagnostics e response) = message e"
  by (auto simp: attach_diagnostics_def Let_def split: option.splits)

lemma match_attach_diagnostics [simp]:
  "match_BadSessionIdInvalid (attach_diagnostics e response) = match_BadSessionIdInvalid e"
  by (simp add: match_BadSessionIdInvalid_def)

lemma invalid_session_matches: "match_BadSessionIdInvalid invalid_session"
  unfolding match_BadSessionIdInvalid_def invalid_session_def Error_def
  by simp

lemma u_perform_plain:
  "u_performMessageTransaction r (Plain c) s =
     (if isChannelValid s then
        send_to_channel (r\<lparr>request_authenticationToken := authenticationToken s\<rparr>) (Plain c) s
      else call (caller_of c) (Some (sync_error s)) None s)"
  by (simp add: u_perform_send u_perform_fail complete.simps invoke_call)

lemma performMessageTransaction_cases:
  "performMessageTransaction r c s =
     (if client s = None then call (caller_of c) (Some (sync_error s)) None s
      else if privileged r then u_performMessageTransaction r (Plain c) s
      else if pendingTransactions s \<noteq> [] then
        s\<lparr>pendingTransactions := pendingTransactions s @ [(r, c)]\<rparr>
      else reprocessRequest 0 r c s)"
  by (simp add: performMessageTransaction_def invoke_call sync_error_def)

section \<open>The order of the pending queue\<close>

lemma filter_remove_nth:
  "i < length xs \<Longrightarrow>
   length (filter P xs) = length (filter P (remove_nth i xs)) + (if P (xs ! i) then 1 else 0)"
proof -
  assume "i < length xs"
  then have "xs = take i xs @ xs ! i # drop (Suc i) xs" by (rule id_take_nth_drop)
  then have "filter P xs = filter P (take i xs @ xs ! i # drop (Suc i) xs)" by simp
  then show ?thesis by (simp add: remove_nth_def)
qed


lemma grows_by_0: "grows_by 0 s s' = sf_step s s'"
  by (simp add: grows_by_def sf_step_def)

lemma grows_by_fields:
  "pendingTransactions s' = pendingTransactions s \<Longrightarrow> workers s' \<le> workers s + k \<Longrightarrow>
   grows_by k s s'"
  by (simp add: grows_by_def)

lemma grows_by_trans:
  "grows_by j s s1 \<Longrightarrow> grows_by k s1 s2 \<Longrightarrow> grows_by (j + k) s s2"
  by (auto simp: grows_by_def)

lemma grows_by_mono: "grows_by j s s' \<Longrightarrow> j \<le> k \<Longrightarrow> grows_by k s s'"
  by (auto simp: grows_by_def)

lemma workers_call [simp]: "workers (call c e rsp s) = workers s"
  by (simp add: workers_def call_def)

lemma workers_fail_in_order [simp]: "workers (fail_in_order e q s) = workers s"
  by (simp add: workers_def fail_in_order_frame)

lemma grows_by_reprocess: "grows_by 1 s (reprocessRequest n r c s)"
proof (cases "isChannelValid s")
  case True
  then show ?thesis
    by (simp add: reprocess_cases grows_by_def workers_def send_to_channel_def)
next
  case False
  have "pendingTransactions (fail_in_order (sync_error s) [(r, c)] s) = []"
    by (simp add: Let_def)
  then show ?thesis
    using False by (simp add: reprocess_cases grows_by_def del: fail_in_order.simps)
qed

lemma grows_by_u_perform_plain: "grows_by 0 s (u_performMessageTransaction r (Plain c) s)"
  by (simp add: u_perform_plain grows_by_def workers_def send_to_channel_def call_def)

lemma grows_by_complete: "grows_by 1 s (complete cb r e rsp s)"
proof (cases cb)
  case (Plain c)
  then show ?thesis by (simp add: complete.simps invoke_call grows_by_def)
next
  case (ReprocessClosure n c)
  show ?thesis
  proof (cases "routed r e")
    case True
    then show ?thesis
      by (simp add: ReprocessClosure complete_routed grows_by_def workers_def invoke_call
          call_def recreate_session_and_reperform_transaction_def)
  next
    case False
    show ?thesis
    proof (cases "pendingTransactions s")
      case Nil
      then show ?thesis
        using False by (simp add: ReprocessClosure complete_not_routed grows_by_def)
    next
      case (Cons t rest)
      obtain r2 c2 where t: "t = (r2, c2)" by (cases t)
      let ?s1 = "(call (caller_of c) e rsp s)\<lparr>pendingTransactions := rest\<rparr>"
      have "grows_by 1 ?s1 (reprocessRequest 0 r2 c2 ?s1)" by (rule grows_by_reprocess)
      moreover have "workers ?s1 = workers s" by (simp add: workers_def call_def)
      ultimately have "grows_by 1 s (reprocessRequest 0 r2 c2 ?s1)"
        using Cons by (auto simp: grows_by_def)
      moreover have "grows_by 1 s (call (caller_of c) e rsp s)"
        by (simp add: grows_by_def)
      ultimately show ?thesis
        using False Cons by (simp add: ReprocessClosure complete_not_routed t)
    qed
  qed
qed

lemma grows_by_complete_plain: "grows_by 0 s (complete (Plain c) r e rsp s)"
  by (simp add: complete.simps invoke_call grows_by_def)

lemma grows_by_channel_callback:
  assumes "k = (if is_reprocess (r, cb) then 1 else 0)"
  shows "grows_by k s (channel_callback cb r e rsp s)"
proof -
  let ?s1 = "s\<lparr>lastResponseReceivedTime := now s\<rparr>"
  have w: "workers ?s1 = workers s" "pendingTransactions ?s1 = pendingTransactions s"
    by (simp_all add: workers_def)
  have g: "grows_by k ?s1 (complete cb r e' rsp' ?s1)" for e' rsp'
  proof (cases cb)
    case (Plain c)
    then show ?thesis using assms by (simp add: grows_by_complete_plain)
  next
    case (ReprocessClosure n c)
    then show ?thesis using assms grows_by_complete [of ?s1 cb r e' rsp'] by simp
  qed
  have "grows_by k s (complete cb r e' rsp' ?s1)" for e' rsp'
    using g [of e' rsp'] unfolding grows_by_def w .
  then show ?thesis
    by (simp add: channel_callback_def Let_def split: option.splits)
qed

lemma grows_by_redo:
  "session_restored_listeners s = ls @ extra \<Longrightarrow> grows_by 0 s (redo ls s)"
proof (induction ls arbitrary: s)
  case Nil
  then show ?case by (simp add: grows_by_def)
next
  case (Cons l ls)
  obtain n r c where l: "l = (n, r, c)" by (cases l)
  let ?s1 = "s\<lparr>session_restored_listeners := remove1 l (session_restored_listeners s),
               exception := False\<rparr>"
  let ?s2 = "reprocessRequest (n + 1) r c ?s1"
  have l1: "session_restored_listeners ?s1 = ls @ extra" using Cons.prems by simp
  have w1: "workers s = workers ?s1 + 1" "pendingTransactions ?s1 = pendingTransactions s"
    using Cons.prems by (simp_all add: workers_def)
  have g1: "grows_by 1 ?s1 ?s2" by (rule grows_by_reprocess)
  have l2: "session_restored_listeners ?s2 = ls @ extra"
    using l1 by (simp only: reprocess_frame)
  have g2: "grows_by 0 ?s2 (redo ls ?s2)" by (rule Cons.IH [OF l2])
  have a: "grows_by 0 s ?s2" using g1 w1 by (auto simp: grows_by_def)
  have b: "grows_by 0 s (redo ls ?s2)" using g1 g2 w1 by (auto simp: grows_by_def)
  show ?case
    using a b by (simp add: l Let_def)
qed

lemma sf_step_perform: "sf_step s (performMessageTransaction r c s)"
proof -
  have 1: "sf_step s (reprocessRequest 0 r c s)" if "pendingTransactions s = []"
    using that
    by (simp add: reprocess_cases sf_step_def send_to_channel_def Let_def same_queue)
  have 2: "sf_step s (u_performMessageTransaction r (Plain c) s)"
    using grows_by_u_perform_plain by (simp add: grows_by_0)
  have 3: "sf_step s (call k e rsp s)" for k e rsp
    by (simp add: sf_step_def)
  have 4: "sf_step s (s\<lparr>pendingTransactions := pendingTransactions s @ [(r, c)]\<rparr>)"
    if "pendingTransactions s \<noteq> []"
    using that by (simp add: sf_step_def workers_def)
  show ?thesis
    using 1 2 3 4 by (simp add: performMessageTransaction_cases)
qed

lemma sf_step_event:
  assumes "\<And>r c. e \<noteq> PushPending r c"
  shows "sf_step s (step e s)"
proof (cases e)
  case (PerformMessageTransaction r c)
  then show ?thesis by (simp add: sf_step_perform)
next
  case (DefaultRequest r c)
  then show ?thesis
    by (simp add: defaultRequest_def sf_step_perform) (simp add: sf_step_def workers_def)
next
  case (Close d c)
  then show ?thesis
    by (simp add: close_def Let_def terminatePublishEngine_def sf_step_def workers_def call_def)
next
  case (EmitCloseEvent st)
  then show ?thesis by (simp add: emitCloseEvent_def sf_step_def workers_def)
next
  case Dispose
  then show ?thesis
    by (simp add: dispose_def terminatePublishEngine_def stopKeepAliveManager_def
        sf_step_def workers_def)
next
  case (ChannelResponse i err rsp)
  show ?thesis
  proof (cases "i < length (channel s)")
    case True
    obtain r cb where rc: "channel s ! i = (r, cb)" by (cases "channel s ! i")
    let ?s1 = "s\<lparr>channel := remove_nth i (channel s)\<rparr>"
    have w: "workers s = workers ?s1 + (if is_reprocess (r, cb) then 1 else 0)"
      using filter_remove_nth [OF True, of is_reprocess] by (simp add: workers_def rc)
    define k :: nat where "k = (if is_reprocess (r, cb) then 1 else 0)"
    have "grows_by k ?s1 (channel_callback cb r err rsp ?s1)"
      by (rule grows_by_channel_callback [OF k_def])
    moreover have "workers s = workers ?s1 + k" using w by (simp add: k_def)
    ultimately have "sf_step s (channel_callback cb r err rsp ?s1)"
      by (auto simp: grows_by_def sf_step_def)
    then show ?thesis using True by (simp add: ChannelResponse rc)
  next
    case False
    then show ?thesis by (simp add: ChannelResponse sf_step_def)
  qed
next
  case (RepairDone i err)
  show ?thesis
  proof (cases "i < length (repairs s)")
    case True
    obtain r c where rc: "repairs s ! i = (r, c)" by (cases "repairs s ! i")
    let ?s1 = "s\<lparr>repairs := remove_nth i (repairs s),
                 recursive_repair_detector := recursive_repair_detector s - 1\<rparr>"
    have "sf_step ?s1 (u_performMessageTransaction r (Plain c) ?s1)"
      using grows_by_u_perform_plain by (simp add: grows_by_0)
    then have "sf_step s (u_performMessageTransaction r (Plain c) ?s1)"
      by (simp add: sf_step_def workers_def)
    moreover have "sf_step s (call (caller_of c) e None ?s1)" for e
      by (simp add: sf_step_def workers_def call_def)
    ultimately show ?thesis
      using True
      by (simp add: RepairDone rc repair_callback_def Let_def invoke_call split: option.splits)
  next
    case False
    then show ?thesis by (simp add: RepairDone sf_step_def)
  qed
next
  case (CloseSessionDone i)
  then show ?thesis
    by (simp add: closeSession_completed_def Let_def emitCloseEvent_def dispose_def call_def
        terminatePublishEngine_def stopKeepAliveManager_def sf_step_def workers_def)
next
  case SessionRestored
  have "grows_by 0 s (redo (session_restored_listeners s) s)"
    by (rule grows_by_redo [where extra = "[]"]) simp
  then show ?thesis by (simp add: SessionRestored emit_session_restored_def grows_by_0)
next
  case Immediate
  then show ?thesis by (simp add: sf_step_def workers_def call_def split: list.splits)
next
  case (SetClient c)
  then show ?thesis by (simp add: sf_step_def workers_def)
next
  case (SetReconnecting b)
  then show ?thesis by (simp add: sf_step_def workers_def)
next
  case (SetTimeout t)
  then show ?thesis by (simp add: sf_step_def workers_def)
next
  case (Tick d)
  then show ?thesis by (simp add: sf_step_def workers_def)
next
  case (PushPending r c)
  then show ?thesis using assms by simp
next
  case (SetThrows f)
  then show ?thesis by (simp add: sf_step_def workers_def)
qed



text \<open>The session alone never starts a queue: the first transaction is pushed from outside.\<close>

lemma queue_empty_without_push:
  "\<forall>e \<in> set es. \<forall>r c. e \<noteq> PushPending r c \<Longrightarrow> pendingTransactions s = [] \<Longrightarrow>
   pendingTransactions (run es s) = []"
proof (induction es arbitrary: s)
  case Nil
  then show ?case by simp
next
  case (Cons e es)
  have "sf_step s (step e s)" using Cons.prems(1) by (intro sf_step_event) simp
  then have "pendingTransactions (step e s) = []"
    using Cons.prems(2) by (simp add: sf_step_def)
  then show ?case using Cons.prems(1) by (simp add: Cons.IH)
qed

lemma dequeues_same: "pendingTransactions s' = pendingTransactions s \<Longrightarrow> dequeues s s'"
  by (simp add: dequeues_def)











section \<open>Single-flight repair\<close>

lemma repair_inv_fields:
  "repairs s' = repairs s \<Longrightarrow> recursive_repair_detector s' = recursive_repair_detector s \<Longrightarrow>
   repair_inv s' = repair_inv s"
  by (simp add: repair_inv_def)

lemma repair_inv_reprocess: "repair_inv (reprocessRequest n r c s) = repair_inv s"
  by (rule repair_inv_fields) (simp_all add: reprocess_frame)

lemma repair_inv_u_perform_plain:
  "repair_inv (u_performMessageTransaction r (Plain c) s) = repair_inv s"
  by (rule repair_inv_fields) (simp_all add: u_perform_plain send_to_channel_def call_def)

lemma repair_inv_perform: "repair_inv (performMessageTransaction r c s) = repair_inv s"
  by (simp add: performMessageTransaction_cases repair_inv_reprocess repair_inv_u_perform_plain)
     (simp add: repair_inv_def call_def)

lemma repair_inv_complete:
  assumes "repair_inv s"
  shows "repair_inv (complete cb r e rsp s)"
proof (cases cb)
  case (Plain c)
  then show ?thesis using assms by (simp add: complete.simps invoke_call call_def repair_inv_def)
next
  case (ReprocessClosure n c)
  show ?thesis
  proof (cases "routed r e")
    case True
    show ?thesis
    proof (cases "recursive_repair_detector s \<ge> 1 \<or> isReconnecting s")
      case True
      then show ?thesis
        using assms \<open>routed r e\<close>
        by (auto simp: ReprocessClosure complete_routed repair_inv_def invoke_call call_def
            recreate_session_and_reperform_transaction_def)
    next
      case False
      then have "repairs s = []" using assms by (cases "repairs s") (auto simp: repair_inv_def)
      then show ?thesis
        using assms False \<open>routed r e\<close>
        by (simp add: ReprocessClosure complete_routed repair_inv_def
            recreate_session_and_reperform_transaction_def)
    qed
  next
    case False
    have "repair_inv (complete (ReprocessClosure n c) r e rsp s) = repair_inv s"
      by (rule repair_inv_fields) (simp_all add: complete_not_routed_frame [OF False])
    then show ?thesis using assms by (simp add: ReprocessClosure)
  qed
qed

lemma repair_inv_channel_callback:
  assumes "repair_inv s"
  shows "repair_inv (channel_callback cb r e rsp s)"
proof -
  have "repair_inv (s\<lparr>lastResponseReceivedTime := now s\<rparr>)"
    using assms by (simp add: repair_inv_def)
  then show ?thesis
    by (auto simp: channel_callback_def Let_def repair_inv_complete split: option.splits)
qed

lemma repair_inv_repair_callback:
  assumes "repair_inv s" and "i < length (repairs s)"
  shows "repair_inv (repair_callback r c e (s\<lparr>repairs := remove_nth i (repairs s)\<rparr>))"
proof -
  let ?s1 = "s\<lparr>repairs := remove_nth i (repairs s),
               recursive_repair_detector := recursive_repair_detector s - 1\<rparr>"
  have 1: "repair_inv ?s1"
    using assms by (auto simp: repair_inv_def remove_nth_def)
  show ?thesis
  proof (cases e)
    case None
    then show ?thesis using 1 by (simp add: repair_callback_def Let_def repair_inv_u_perform_plain)
  next
    case (Some a)
    then show ?thesis
      using 1 by (simp add: repair_callback_def Let_def invoke_call call_def repair_inv_def)
  qed
qed

lemma repair_inv_redo: "repair_inv (redo ls s) = repair_inv s"
proof (induction ls arbitrary: s)
  case Nil
  then show ?case by simp
next
  case (Cons l ls)
  obtain n r c where l: "l = (n, r, c)" by (cases l)
  let ?s1 = "s\<lparr>session_restored_listeners := remove1 l (session_restored_listeners s),
               exception := False\<rparr>"
  let ?s2 = "reprocessRequest (n + 1) r c ?s1"
  have "repair_inv ?s1 = repair_inv s" by (simp add: repair_inv_def)
  then have a: "repair_inv ?s2 = repair_inv s" by (simp only: repair_inv_reprocess)
  then have b: "repair_inv (redo ls ?s2) = repair_inv s" by (simp only: Cons.IH)
  show ?case
    using a b by (simp add: l Let_def)
qed

lemma repair_inv_step:
  assumes "repair_inv s"
  shows "repair_inv (step e s)"
proof (cases e)
  case (PerformMessageTransaction r c)
  then show ?thesis using assms by (simp add: repair_inv_perform)
next
  case (DefaultRequest r c)
  then show ?thesis
    using assms by (simp add: defaultRequest_def repair_inv_perform) (simp add: repair_inv_def)
next
  case (Close d c)
  then show ?thesis
    using assms
    by (simp add: close_def call_def terminatePublishEngine_def Let_def repair_inv_def)
next
  case (EmitCloseEvent st)
  then show ?thesis using assms by (simp add: emitCloseEvent_def repair_inv_def)
next
  case Dispose
  then show ?thesis
    using assms
    by (simp add: dispose_def terminatePublishEngine_def stopKeepAliveManager_def
        repair_inv_def)
next
  case (ChannelResponse i err rsp)
  show ?thesis
  proof (cases "i < length (channel s)")
    case True
    obtain r cb where rc: "channel s ! i = (r, cb)" by (cases "channel s ! i")
    have "repair_inv (s\<lparr>channel := remove_nth i (channel s)\<rparr>)"
      using assms by (simp add: repair_inv_def)
    then show ?thesis
      using True by (simp add: ChannelResponse rc repair_inv_channel_callback)
  next
    case False
    then show ?thesis using assms by (simp add: ChannelResponse)
  qed
next
  case (RepairDone i err)
  show ?thesis
  proof (cases "i < length (repairs s)")
    case True
    obtain r c where rc: "repairs s ! i = (r, c)" by (cases "repairs s ! i")
    show ?thesis
      using True by (simp add: RepairDone rc repair_inv_repair_callback [OF assms True])
  next
    case False
    then show ?thesis using assms by (simp add: RepairDone)
  qed
next
  case (CloseSessionDone i)
  then show ?thesis
    using assms
    by (simp add: closeSession_completed_def emitCloseEvent_def dispose_def call_def Let_def
        terminatePublishEngine_def stopKeepAliveManager_def repair_inv_def)
next
  case SessionRestored
  then show ?thesis
    using assms by (simp add: emit_session_restored_def repair_inv_redo)
next
  case Immediate
  then show ?thesis
    using assms by (simp add: call_def repair_inv_def split: list.splits)
next
  case (SetClient c)
  then show ?thesis using assms by (simp add: repair_inv_def)
next
  case (SetReconnecting b)
  then show ?thesis using assms by (simp add: repair_inv_def)
next
  case (SetTimeout t)
  then show ?thesis using assms by (simp add: repair_inv_def)
next
  case (Tick d)
  then show ?thesis using assms by (simp add: repair_inv_def)
next
  case (PushPending r c)
  then show ?thesis using assms by (simp add: repair_inv_def)
next
  case (SetThrows f)
  then show ?thesis using assms by (simp add: repair_inv_def)
qed

lemma repair_inv_run: "repair_inv s \<Longrightarrow> repair_inv (run es s)"
  by (induction es arbitrary: s) (simp_all add: repair_inv_step)

lemma repair_inv_new_session: "repair_inv (new_session c d0 t0)"
  by (simp add: repair_inv_def new_session_def)

text \<open>
  C2. The repair guard \<open>recursive_repair_detector\<close> is 0 or 1 in every state a session
  reaches, and equals the number of repairs that have not called back. An attempt to repair
  while the guard is 1 calls the callback with \<^verbatim>\<open>Cannot recreate session\<close> and does nothing
  else: no second call of \<^verbatim>\<open>repair_client_session\<close>, the guard unchanged. So does the closure
  of \<^verbatim>\<open>#reprocessRequest\<close> on a second invalid-session error while the repair is under way.
\<close>

theorem single_flight_repair:
  "0 \<le> recursive_repair_detector (run es (new_session c0 d0 t0))
   \<and> recursive_repair_detector (run es (new_session c0 d0 t0)) \<le> 1
   \<and> recursive_repair_detector (run es (new_session c0 d0 t0))
       = int (length (repairs (run es (new_session c0 d0 t0))))
   \<and> (repair_inv s \<longrightarrow> repair_inv (run es s))
   \<and> (recursive_repair_detector s \<ge> 1 \<longrightarrow>
        recreate_session_and_reperform_transaction request callback s
          = call (caller_of callback) (Some (Error ''Cannot recreate session'')) None s
        \<and> repairs (recreate_session_and_reperform_transaction request callback s) = repairs s
        \<and> recursive_repair_detector (recreate_session_and_reperform_transaction request callback s)
            = recursive_repair_detector s
        \<and> trace (recreate_session_and_reperform_transaction request callback s)
            = trace s @ [Invoke (caller_of callback) (Some (Error ''Cannot recreate session'')) None])
   \<and> (recursive_repair_detector s \<ge> 1 \<and> routed request err \<and> \<not> isReconnecting s \<longrightarrow>
        complete (ReprocessClosure n callback) request err response s
          = call (caller_of callback) (Some (Error ''Cannot recreate session'')) None s)"
proof -
  have "repair_inv (run es (new_session c0 d0 t0))"
    by (rule repair_inv_run [OF repair_inv_new_session])
  then have reach: "0 \<le> recursive_repair_detector (run es (new_session c0 d0 t0))
      \<and> recursive_repair_detector (run es (new_session c0 d0 t0)) \<le> 1
      \<and> recursive_repair_detector (run es (new_session c0 d0 t0))
          = int (length (repairs (run es (new_session c0 d0 t0))))"
    by (simp add: repair_inv_def)
  have pres: "repair_inv s \<longrightarrow> repair_inv (run es s)"
    by (simp add: repair_inv_run)
  have guard: "recursive_repair_detector s \<ge> 1 \<longrightarrow>
        recreate_session_and_reperform_transaction request callback s
          = call (caller_of callback) (Some (Error ''Cannot recreate session'')) None s
        \<and> repairs (recreate_session_and_reperform_transaction request callback s) = repairs s
        \<and> recursive_repair_detector (recreate_session_and_reperform_transaction request callback s)
            = recursive_repair_detector s
        \<and> trace (recreate_session_and_reperform_transaction request callback s)
            = trace s @ [Invoke (caller_of callback) (Some (Error ''Cannot recreate session'')) None]"
    by (simp add: recreate_session_and_reperform_transaction_def invoke_call call_def)
  have second: "recursive_repair_detector s \<ge> 1 \<and> routed request err \<and> \<not> isReconnecting s \<longrightarrow>
        complete (ReprocessClosure n callback) request err response s
          = call (caller_of callback) (Some (Error ''Cannot recreate session'')) None s"
    by (simp add: complete_routed recreate_session_and_reperform_transaction_def invoke_call)
  show ?thesis
    using reach pres guard second by blast
qed

text \<open>
  Two transactions are in flight, both fail with an invalid session: the first failure
  starts the repair, the second is refused.
\<close>

theorem single_flight_repair_witness:
  "repair_inv repairing_session
   \<and> recursive_repair_detector repairing_session \<ge> 1
   \<and> routed (a_request ReadRequest 2) (Some invalid_session)
   \<and> \<not> isReconnecting repairing_session
   \<and> complete (ReprocessClosure 0 (Caller 8)) (a_request ReadRequest 2) (Some invalid_session)
        None repairing_session
      = repairing_session\<lparr>trace := [Invoke 8 (Some (Error ''Cannot recreate session'')) None]\<rparr>
   \<and> repair_inv (run [RepairDone 0 None] repairing_session)
   \<and> recursive_repair_detector
        (run [PerformMessageTransaction (a_request WriteRequest 1) (Caller 3),
              PerformMessageTransaction (a_request ReadRequest 2) (Caller 8),
              ChannelResponse 0 (Some invalid_session) None,
              ChannelResponse 0 (Some invalid_session) None] (new_session a_client 0 0)) = 1
   \<and> trace
        (run [PerformMessageTransaction (a_request WriteRequest 1) (Caller 3),
              PerformMessageTransaction (a_request ReadRequest 2) (Caller 8),
              ChannelResponse 0 (Some invalid_session) None,
              ChannelResponse 0 (Some invalid_session) None] (new_session a_client 0 0))
      = [ChannelSend (a_request WriteRequest 1), ChannelSend (a_request ReadRequest 2),
         RepairClientSession, Invoke 8 (Some (Error ''Cannot recreate session'')) None]"
  using single_flight_repair
    [where s = repairing_session and es = "[RepairDone 0 None]"
       and request = "a_request ReadRequest 2" and err = "Some invalid_session"
       and callback = "Caller 8" and n = 0 and response = None]
    invalid_session_matches
  by (simp add: repairing_session_def new_session_def a_client_def a_request_def
      isReconnecting_def isChannelValid_def performMessageTransaction_def privileged_def
      reprocess_cases send_to_channel_def remove_nth_def channel_callback_def complete.simps
      is_invalid_session_error_def recreate_session_and_reperform_transaction_def
      repair_callback_def u_performMessageTransaction.simps invoke_call call_def caller_of_def
      repair_inv_def routed_def)

section \<open>The shape of results\<close>

lemma reshape_array_length:
  "reshape True rs = Several rs" "reshape False rs = Single (first_result rs)"
  by (simp_all add: reshape_def)




section \<open>Repair and replay\<close>

text \<open>
  C4. When a transaction dispatched by \<^verbatim>\<open>#reprocessRequest\<close> fails with an error that
  matches \<^verbatim>\<open>BadSessionIdInvalid\<close>, the request is not an ActivateSessionRequest, the session
  is not reconnecting and no repair is under way, the caller is not completed: the repair
  of the session is started with the request and the caller's callback. When the repair
  succeeds the request goes to \<^verbatim>\<open>_performMessageTransaction\<close> with the caller's own callback
  (on an open channel it is handed to the channel; the pending queue is neither consulted
  nor changed), and the caller receives what that second transaction completes with. When
  the repair fails the caller receives the error of the repair.
\<close>

theorem repair_and_replay:
  "(match_BadSessionIdInvalid e \<and> request_class request \<noteq> ActivateSessionRequest
      \<and> \<not> isReconnecting s \<and> recursive_repair_detector s < 1 \<longrightarrow>
      channel_callback (ReprocessClosure n callback) request (Some e) response s
        = s\<lparr>lastResponseReceivedTime := now s,
            recursive_repair_detector := recursive_repair_detector s + 1,
            repairs := repairs s @ [(request\<lparr>requestHandle := HandleNotSet\<rparr>, callback)],
            trace := trace s @ [RepairClientSession]\<rparr>)
   \<and> repair_callback request1 callback None s1
        = u_performMessageTransaction request1 (Plain callback)
            (s1\<lparr>recursive_repair_detector := recursive_repair_detector s1 - 1\<rparr>)
   \<and> (isChannelValid s1 \<longrightarrow>
        repair_callback request1 callback None s1
          = send_to_channel
              (request1\<lparr>request_authenticationToken := authenticationToken s1\<rparr>)
              (Plain callback)
              (s1\<lparr>recursive_repair_detector := recursive_repair_detector s1 - 1\<rparr>)
        \<and> pendingTransactions (repair_callback request1 callback None s1)
            = pendingTransactions s1)
   \<and> (\<not> isNot_Good (serviceResult r) \<longrightarrow>
        channel_callback (Plain callback) request2 None (Some r) s2
          = call (caller_of callback) None (Some r) (s2\<lparr>lastResponseReceivedTime := now s2\<rparr>))
   \<and> channel_callback (Plain callback) request2 (Some e2) response2 s2
        = call (caller_of callback) (Some (attach_diagnostics e2 response2)) None
            (s2\<lparr>lastResponseReceivedTime := now s2\<rparr>)
   \<and> repair_callback request1 callback (Some e1) s1
        = call (caller_of callback) (Some e1) None
            (s1\<lparr>recursive_repair_detector := recursive_repair_detector s1 - 1\<rparr>)"
proof -
  have A: "channel_callback (ReprocessClosure n callback) request (Some e) response s
        = s\<lparr>lastResponseReceivedTime := now s,
            recursive_repair_detector := recursive_repair_detector s + 1,
            repairs := repairs s @ [(request\<lparr>requestHandle := HandleNotSet\<rparr>, callback)],
            trace := trace s @ [RepairClientSession]\<rparr>"
    if "match_BadSessionIdInvalid e" "request_class request \<noteq> ActivateSessionRequest"
       "\<not> isReconnecting s" "recursive_repair_detector s < 1"
  proof -
    have r: "routed request (Some (attach_diagnostics e response))"
      using that(1,2)
      by (simp add: routed_def is_invalid_session_error_def constructor_name_Activate)
    have nr: "\<not> isReconnecting (s\<lparr>lastResponseReceivedTime := now s\<rparr>)"
      using that(3) by (auto simp: isReconnecting_def split: option.splits)
    show ?thesis
      using that(4) nr
      by (simp add: channel_callback_def Let_def complete_routed [OF r]
          recreate_session_and_reperform_transaction_def)
  qed
  have B: "repair_callback request1 callback None s1
          = send_to_channel
              (request1\<lparr>request_authenticationToken := authenticationToken s1\<rparr>)
              (Plain callback)
              (s1\<lparr>recursive_repair_detector := recursive_repair_detector s1 - 1\<rparr>)"
    if "isChannelValid s1"
  proof -
    have "isChannelValid (s1\<lparr>recursive_repair_detector := recursive_repair_detector s1 - 1\<rparr>)"
      using that by (auto simp: isChannelValid_def split: option.splits)
    then show ?thesis
      by (simp add: repair_callback_def Let_def u_perform_send)
  qed
  have C: "channel_callback (Plain callback) request2 None (Some r) s2
          = call (caller_of callback) None (Some r) (s2\<lparr>lastResponseReceivedTime := now s2\<rparr>)"
    if "\<not> isNot_Good (serviceResult r)"
    using that by (simp add: channel_callback_def Let_def complete.simps invoke_call)
  have D: "channel_callback (Plain callback) request2 (Some e2) response2 s2
        = call (caller_of callback) (Some (attach_diagnostics e2 response2)) None
            (s2\<lparr>lastResponseReceivedTime := now s2\<rparr>)"
    by (simp add: channel_callback_def Let_def complete.simps invoke_call)
  have E: "repair_callback request1 callback (Some e1) s1
        = call (caller_of callback) (Some e1) None
            (s1\<lparr>recursive_repair_detector := recursive_repair_detector s1 - 1\<rparr>)"
    by (simp add: repair_callback_def Let_def invoke_call)
  have B0: "repair_callback request1 callback None s1
        = u_performMessageTransaction request1 (Plain callback)
            (s1\<lparr>recursive_repair_detector := recursive_repair_detector s1 - 1\<rparr>)"
    by (simp add: repair_callback_def Let_def)
  have B1: "pendingTransactions (repair_callback request1 callback None s1)
              = pendingTransactions s1"
    if "isChannelValid s1"
    using B [OF that] by (simp add: send_to_channel_def)
  show ?thesis
    using A B B0 B1 C D E by blast
qed

text \<open>
  The scenario from a fresh session: a write is sent, fails with an invalid session, the
  repair succeeds, the write is sent again and its response reaches the caller.
\<close>

theorem repair_and_replay_witness:
  "match_BadSessionIdInvalid invalid_session
   \<and> \<not> isReconnecting (new_session a_client 0 0)
   \<and> trace (run [PerformMessageTransaction (a_request WriteRequest 1) (Caller 3),
                 ChannelResponse 0 (Some invalid_session) None,
                 RepairDone 0 None,
                 ChannelResponse 0 None (Some (a_response WriteResponse (Some [StatusCodeValue Good])))]
              (new_session a_client 0 0))
      = [ChannelSend (a_request WriteRequest 1),
         RepairClientSession,
         ChannelSend ((a_request WriteRequest 1)\<lparr>requestHandle := HandleNotSet\<rparr>),
         Invoke 3 None (Some (a_response WriteResponse (Some [StatusCodeValue Good])))]
   \<and> channel_callback (ReprocessClosure 0 (Caller 3)) (a_request WriteRequest 1)
        (Some invalid_session) None (new_session a_client 0 0)
      = (new_session a_client 0 0)
          \<lparr>recursive_repair_detector := 1,
           repairs := [((a_request WriteRequest 1)\<lparr>requestHandle := HandleNotSet\<rparr>, Caller 3)],
           trace := [RepairClientSession]\<rparr>"
  using repair_and_replay
    [where e = invalid_session and request = "a_request WriteRequest 1"
       and s = "new_session a_client 0 0" and n = 0 and callback = "Caller 3" and response = None
       and ?s1.0 = "new_session a_client 0 0" and ?s2.0 = "new_session a_client 0 0"
       and r = "a_response WriteResponse (Some [StatusCodeValue Good])"
       and ?request1.0 = "a_request WriteRequest 1" and ?request2.0 = "a_request WriteRequest 1"
       and ?e1.0 = invalid_session and ?e2.0 = invalid_session and ?response2.0 = None]
    invalid_session_matches
  by (simp add: new_session_def a_client_def a_request_def a_response_def isReconnecting_def
      isChannelValid_def performMessageTransaction_def privileged_def reprocess_cases
      send_to_channel_def remove_nth_def channel_callback_def complete.simps
      is_invalid_session_error_def recreate_session_and_reperform_transaction_def
      repair_callback_def u_performMessageTransaction.simps invoke_call call_def caller_of_def)

section \<open>A closed session\<close>

text \<open>
  C5, as amended. A transaction submitted on a session that has been detached from its
  client (\<^verbatim>\<open>_client\<close> is null, the test of \<^verbatim>\<open>performMessageTransaction\<close>) fails at once with
  the session-closed error: the caller's callback is called with it, nothing is handed to
  the channel and nothing is queued. \<^verbatim>\<open>_defaultRequest\<close> does the same once the close event
  has been emitted, with its own error, delivered by \<^verbatim>\<open>setImmediate\<close>. What becomes of a
  transaction submitted to \<^verbatim>\<open>performMessageTransaction\<close> on a session that has been closed
  and still has its client is not stated.
\<close>

theorem closed_session_short_circuit:
  "(client s = None \<longrightarrow>
      performMessageTransaction request callback s
        = call (caller_of callback)
            (Some (Error ''Session has been closed and should not be used to perform a transaction anymore''))
            None s
      \<and> channel (performMessageTransaction request callback s) = channel s
      \<and> pendingTransactions (performMessageTransaction request callback s) = pendingTransactions s
      \<and> trace (performMessageTransaction request callback s)
          = trace s @ [Invoke (caller_of callback)
              (Some (Error ''Session has been closed and should not be used to perform a transaction anymore''))
              None])
   \<and> (closeEventHasBeenEmitted s \<longrightarrow>
        defaultRequest request c s
          = s\<lparr>immediates := immediates s @ [(c, Error ''ClientSession is closed !'')]\<rparr>
        \<and> (immediates s = [] \<longrightarrow>
             step Immediate (defaultRequest request c s)
               = call c (Some (Error ''ClientSession is closed !'')) None s))
   \<and> (client s = None \<and> \<not> closeEventHasBeenEmitted s \<longrightarrow>
        defaultRequest request c s
          = call c
              (Some (Error ''Session has been closed and should not be used to perform a transaction anymore''))
              None s)"
  by (auto simp: performMessageTransaction_def defaultRequest_def invoke_call call_def
      caller_of_def)

theorem closed_session_short_circuit_witness:
  "client closed_session = None \<and> closeEventHasBeenEmitted closed_session
   \<and> immediates closed_session = []
   \<and> performMessageTransaction (a_request ReadRequest 1) (Caller 7) closed_session
      = closed_session\<lparr>trace :=
          [Invoke 7
            (Some (Error ''Session has been closed and should not be used to perform a transaction anymore''))
            None]\<rparr>
   \<and> step Immediate (defaultRequest (a_request ReadRequest 1) 8 closed_session)
      = closed_session\<lparr>trace := [Invoke 8 (Some (Error ''ClientSession is closed !'')) None]\<rparr>
   \<and> client detached_session = None \<and> \<not> closeEventHasBeenEmitted detached_session
   \<and> defaultRequest (a_request ReadRequest 1) 8 detached_session
      = detached_session\<lparr>trace :=
          [Invoke 8
            (Some (Error ''Session has been closed and should not be used to perform a transaction anymore''))
            None]\<rparr>"
  using closed_session_short_circuit
    [where s = closed_session and request = "a_request ReadRequest 1" and callback = "Caller 7"
       and c = 8]
    closed_session_short_circuit
    [where s = detached_session and request = "a_request ReadRequest 1" and callback = "Caller 7"
       and c = 8]
  by (simp add: closed_session_def detached_session_def new_session_def call_def caller_of_def)


text \<open>
  The claim as it is written fails: after \<^verbatim>\<open>close\<close> has been called and before the owning
  client has answered, and also after the close event has been emitted or the session has
  been marked closed (\<^verbatim>\<open>hasBeenClosed()\<close> is true) while the session has its client, a
  transaction submitted to \<^verbatim>\<open>performMessageTransaction\<close> is handed to the channel.
\<close>

theorem closed_session_short_circuit_counterexample:
  "trace (run [Close True 1, PerformMessageTransaction (a_request ReadRequest 1) (Caller 7)]
            (new_session a_client 0 5))
     = [ClientCloseSession True, ChannelSend (a_request ReadRequest 1)]
   \<and> channel (performMessageTransaction (a_request ReadRequest 1) (Caller 7) closing_session)
     = [(a_request ReadRequest 1, ReprocessClosure 0 (Caller 7))]
   \<and> hasBeenClosed emitted_session
   \<and> trace (performMessageTransaction (a_request ReadRequest 1) (Caller 7) emitted_session)
     = [Emit_session_closed Good, ChannelSend (a_request ReadRequest 1)]
   \<and> hasBeenClosed ((new_session a_client 0 5)\<lparr>closed := True\<rparr>)
   \<and> trace (performMessageTransaction (a_request ReadRequest 1) (Caller 7)
              ((new_session a_client 0 5)\<lparr>closed := True\<rparr>))
     = [ChannelSend (a_request ReadRequest 1)]"
  by (simp add: new_session_def a_client_def a_request_def close_def terminatePublishEngine_def
      closing_session_def emitted_session_def emitCloseEvent_def hasBeenClosed_def
      performMessageTransaction_def privileged_def reprocess_cases isChannelValid_def
      send_to_channel_def)
section \<open>Privileged requests\<close>

text \<open>
  C6. A PublishRequest, an ActivateSessionRequest or a CloseSessionRequest never takes the
  path of the pending queue: \<^verbatim>\<open>performMessageTransaction\<close> passes it with the caller's
  callback straight to \<^verbatim>\<open>_performMessageTransaction\<close>, whatever the queue holds, the queue
  is left as it is, and on an open channel the request is handed to the channel.
\<close>

theorem privileged_bypass:
  assumes "request_class request = PublishRequest
           \<or> request_class request = ActivateSessionRequest
           \<or> request_class request = CloseSessionRequest"
  shows "performMessageTransaction request callback s
           = u_performMessageTransaction request (Plain callback) s
         \<and> pendingTransactions (performMessageTransaction request callback s)
             = pendingTransactions s
         \<and> (isChannelValid s \<longrightarrow>
              performMessageTransaction request callback s
                = send_to_channel
                    (request\<lparr>request_authenticationToken := authenticationToken s\<rparr>)
                    (Plain callback) s)"
proof -
  have eq: "performMessageTransaction request callback s
              = u_performMessageTransaction request (Plain callback) s"
    using assms
    by (auto simp: performMessageTransaction_def privileged_def
        u_performMessageTransaction.simps complete.simps)
  show ?thesis
  proof (cases "isChannelValid s")
    case True
    then show ?thesis by (simp add: eq u_perform_send send_to_channel_def)
  next
    case False
    then show ?thesis by (simp add: eq u_perform_fail complete.simps invoke_call call_def)
  qed
qed

theorem privileged_bypass_witness:
  "pendingTransactions queueing_session \<noteq> []
   \<and> performMessageTransaction (a_request PublishRequest 2) (Caller 9) queueing_session
      = queueing_session
          \<lparr>lastRequestSentTime := 5,
           channel := [((a_request PublishRequest 2)\<lparr>request_authenticationToken := Some 11\<rparr>,
                        Plain (Caller 9))],
           trace := [ChannelSend ((a_request PublishRequest 2)\<lparr>request_authenticationToken := Some 11\<rparr>)]\<rparr>"
  using privileged_bypass [of "a_request PublishRequest 2" "Caller 9" queueing_session]
  by (simp add: queueing_session_def new_session_def a_request_def a_client_def
      isChannelValid_def send_to_channel_def u_performMessageTransaction.simps)

section \<open>Closing twice\<close>

lemma close_inv_cl: "close_inv s \<Longrightarrow> cl s' = cl s \<Longrightarrow> close_inv s'"
  by (simp add: cl_def close_inv_def)

lemma failed_with_no_close_event [simp]: "\<not> is_close_event (failed_with e t)"
  by (simp add: failed_with_def)

lemma no_close_event_failed [simp]: "filter is_close_event (map (failed_with e) q) = []"
  by (induction q) simp_all

lemma cl_call [simp]: "cl (call c e rsp s) = cl s"
  by (simp add: cl_def close_events_def call_def)

lemma cl_send [simp]: "cl (send_to_channel r cb s) = cl s"
  by (simp add: cl_def close_events_def send_to_channel_def)

lemma cl_fail_in_order [simp]: "cl (fail_in_order e q s) = cl s"
proof -
  obtain k where "trace (fail_in_order e q s) = trace s @ map (failed_with e) (take k q)"
    using fail_in_order_trace by blast
  then show ?thesis
    by (simp add: cl_def close_events_def fail_in_order_frame)
qed

lemma cl_reprocess [simp]: "cl (reprocessRequest n r c s) = cl s"
  by (simp add: reprocess_cases del: fail_in_order.simps)

lemma cl_pending [simp]: "cl (s\<lparr>pendingTransactions := q\<rparr>) = cl s"
  by (simp add: cl_def close_events_def)

lemma cl_complete [simp]: "cl (complete cb r e rsp s) = cl s"
proof (cases cb)
  case (Plain c)
  then show ?thesis by (simp add: complete.simps invoke_call)
next
  case (ReprocessClosure n c)
  show ?thesis
  proof (cases "routed r e")
    case True
    then show ?thesis
      by (simp add: ReprocessClosure complete_routed invoke_call
          recreate_session_and_reperform_transaction_def)
         (simp add: cl_def close_events_def)
  next
    case False
    then show ?thesis
      by (simp add: ReprocessClosure complete_not_routed split: list.splits)
  qed
qed

lemma cl_u_perform [simp]: "cl (u_performMessageTransaction r cb s) = cl s"
  by (cases "isChannelValid s") (simp_all add: u_perform_send u_perform_fail)

lemma cl_perform [simp]: "cl (performMessageTransaction r c s) = cl s"
  by (simp add: performMessageTransaction_cases)

lemma cl_channel_callback:
  "cl (channel_callback cb r e rsp s) = cl s"
proof -
  have "cl (s\<lparr>lastResponseReceivedTime := now s\<rparr>) = cl s"
    by (simp add: cl_def close_events_def)
  then show ?thesis
    by (simp add: channel_callback_def Let_def split: option.splits)
qed

lemma cl_repair_callback: "cl (repair_callback r c e s) = cl s"
proof -
  have "cl (s\<lparr>recursive_repair_detector := recursive_repair_detector s - 1\<rparr>) = cl s"
    by (simp add: cl_def close_events_def)
  then show ?thesis
    by (simp add: repair_callback_def Let_def invoke_call split: option.splits)
qed

lemma cl_redo [simp]: "cl (redo ls s) = cl s"
proof (induction ls arbitrary: s)
  case Nil
  then show ?case by simp
next
  case (Cons l ls)
  obtain n r c where l: "l = (n, r, c)" by (cases l)
  let ?s1 = "s\<lparr>session_restored_listeners := remove1 l (session_restored_listeners s),
               exception := False\<rparr>"
  let ?s2 = "reprocessRequest (n + 1) r c ?s1"
  have "cl ?s1 = cl s" by (simp add: cl_def close_events_def)
  then have a: "cl ?s2 = cl s" by simp
  then have b: "cl (redo ls ?s2) = cl s" by (simp only: Cons.IH)
  show ?case
    using a b by (simp add: l Let_def)
qed

lemma close_inv_emitCloseEvent:
  assumes "close_inv s"
  shows "close_inv (emitCloseEvent st s)"
proof (cases "closeEventHasBeenEmitted s")
  case True
  then show ?thesis using assms by (simp add: emitCloseEvent_def)
next
  case False
  with assms have "close_events s \<noteq> 1" and "close_events s \<le> 1"
    by (auto simp: close_inv_def)
  then have "close_events s = 0" by arith
  then show ?thesis
    using False by (simp add: close_inv_def emitCloseEvent_def close_events_def)
qed

lemma cl_terminatePublishEngine [simp]: "cl (terminatePublishEngine s) = cl s"
  by (simp add: terminatePublishEngine_def cl_def close_events_def)

lemma cl_stopKeepAliveManager [simp]: "cl (stopKeepAliveManager s) = cl s"
  by (simp add: stopKeepAliveManager_def cl_def close_events_def)

lemma cl_dispose: "dispose s = Some s' \<Longrightarrow> cl s' = cl s"
proof -
  assume d: "dispose s = Some s'"
  have "cl ((stopKeepAliveManager (terminatePublishEngine s))\<lparr>session_restored_listeners := []\<rparr>)
          = cl (stopKeepAliveManager (terminatePublishEngine s))"
    by (simp add: cl_def close_events_def)
  then show ?thesis
    using d by (auto simp: dispose_def split: if_splits)
qed

lemma cl_close [simp]: "cl (close d c s) = cl s"
proof -
  have "cl ((terminatePublishEngine s)
            \<lparr>closeSessions := closeSessions (terminatePublishEngine s) @ [c],
             trace := trace (terminatePublishEngine s) @ [ClientCloseSession d]\<rparr>)
        = cl (terminatePublishEngine s)"
    by (simp add: cl_def close_events_def)
  then show ?thesis by (simp add: close_def Let_def)
qed

lemma close_inv_closeSession_completed:
  assumes "close_inv s"
  shows "close_inv (closeSession_completed c s)"
proof -
  let ?s1 = "emitCloseEvent Good s"
  let ?s2 = "?s1\<lparr>client := None, closed := True\<rparr>"
  let ?s3 = "case dispose ?s2 of Some s' \<Rightarrow> s' | None \<Rightarrow> ?s2"
  have 1: "close_inv ?s1" by (rule close_inv_emitCloseEvent [OF assms])
  have "cl ?s2 = cl ?s1" by (simp add: cl_def close_events_def)
  moreover have "cl ?s3 = cl ?s2" by (auto split: option.splits dest: cl_dispose)
  ultimately have "cl (call c None None ?s3) = cl ?s1" by simp
  then show ?thesis
    unfolding closeSession_completed_def Let_def by (rule close_inv_cl [OF 1])
qed

lemma close_inv_step:
  assumes "close_inv s"
  shows "close_inv (step e s)"
proof (cases e)
  case (PerformMessageTransaction r c)
  then show ?thesis by (auto intro: close_inv_cl [OF assms])
next
  case (DefaultRequest r c)
  have "cl (s\<lparr>immediates := immediates s @ [(c, Error ''ClientSession is closed !'')]\<rparr>) = cl s"
    by (simp add: cl_def close_events_def)
  then show ?thesis
    by (auto simp: DefaultRequest defaultRequest_def intro: close_inv_cl [OF assms])
next
  case (Close d c)
  then show ?thesis by (auto intro: close_inv_cl [OF assms])
next
  case (EmitCloseEvent st)
  then show ?thesis using assms by (simp add: close_inv_emitCloseEvent)
next
  case Dispose
  have "cl (case dispose s of Some s' \<Rightarrow> s' | None \<Rightarrow> s) = cl s"
    by (auto split: option.splits dest: cl_dispose)
  then show ?thesis by (auto simp: Dispose intro: close_inv_cl [OF assms])
next
  case (ChannelResponse i err rsp)
  have "cl (s\<lparr>channel := remove_nth i (channel s)\<rparr>) = cl s"
    by (simp add: cl_def close_events_def)
  then have "cl (step e s) = cl s"
    by (simp add: ChannelResponse cl_channel_callback split: prod.splits)
  then show ?thesis by (rule close_inv_cl [OF assms])
next
  case (RepairDone i err)
  have "cl (s\<lparr>repairs := remove_nth i (repairs s)\<rparr>) = cl s"
    by (simp add: cl_def close_events_def)
  then have "cl (step e s) = cl s"
    by (simp add: RepairDone cl_repair_callback split: prod.splits)
  then show ?thesis by (rule close_inv_cl [OF assms])
next
  case (CloseSessionDone i)
  have "cl (s\<lparr>closeSessions := remove_nth i (closeSessions s)\<rparr>) = cl s"
    by (simp add: cl_def close_events_def)
  then have "close_inv (s\<lparr>closeSessions := remove_nth i (closeSessions s)\<rparr>)"
    by (rule close_inv_cl [OF assms])
  then show ?thesis
    using assms by (simp add: CloseSessionDone close_inv_closeSession_completed)
next
  case SessionRestored
  then have "cl (step e s) = cl s"
    by (simp add: emit_session_restored_def)
  then show ?thesis by (rule close_inv_cl [OF assms])
next
  case Immediate
  have "cl (s\<lparr>immediates := q\<rparr>) = cl s" for q
    by (simp add: cl_def close_events_def)
  then have "cl (step e s) = cl s"
    by (simp add: Immediate split: list.splits)
  then show ?thesis by (rule close_inv_cl [OF assms])
next
  case (SetClient c)
  then show ?thesis using assms by (simp add: close_inv_def close_events_def)
next
  case (SetReconnecting b)
  then show ?thesis using assms by (simp add: close_inv_def close_events_def)
next
  case (SetTimeout t)
  then show ?thesis using assms by (simp add: close_inv_def close_events_def)
next
  case (Tick d)
  then show ?thesis using assms by (simp add: close_inv_def close_events_def)
next
  case (PushPending r c)
  then show ?thesis using assms by (simp add: close_inv_def close_events_def)
next
  case (SetThrows f)
  then show ?thesis using assms by (simp add: close_inv_def close_events_def)
qed

lemma close_inv_run: "close_inv s \<Longrightarrow> close_inv (run es s)"
  by (induction es arbitrary: s) (simp_all add: close_inv_step)

lemma close_inv_new_session: "close_inv (new_session c d0 t0)"
  by (simp add: close_inv_def close_events_def new_session_def)

text \<open>
  C7, as amended. \<^verbatim>\<open>session_closed\<close> is emitted at most once in the life of a session,
  however often \<^verbatim>\<open>close\<close> is called: the flag \<open>closeEventHasBeenEmitted\<close> guards
  \<^verbatim>\<open>emitCloseEvent\<close> and nothing resets it. A call of \<^verbatim>\<open>close\<close> on a session that has been
  detached from its client (\<^verbatim>\<open>_client\<close> is null, the test of \<^verbatim>\<open>close\<close>) calls its callback at
  once: no request to the owning client, nothing sent. What a call of \<^verbatim>\<open>close\<close> does on a
  session that has been closed before and still has its client is not stated.
\<close>

theorem idempotent_close:
  "close_events (run es (new_session c0 d0 t0)) \<le> 1
   \<and> (close_inv s \<longrightarrow> close_events (run es s) \<le> 1)
   \<and> (closeEventHasBeenEmitted s \<longrightarrow> emitCloseEvent statusCode s = s)
   \<and> (client s = None \<longrightarrow>
        close deleteSubscription c s = call c None None s
        \<and> filter is_network_action (trace (close deleteSubscription c s))
            = filter is_network_action (trace s)
        \<and> closeSessions (close deleteSubscription c s) = closeSessions s
        \<and> close_events (close deleteSubscription c s) = close_events s)"
proof -
  have a: "close_events (run es (new_session c0 d0 t0)) \<le> 1"
    using close_inv_run [OF close_inv_new_session, of es c0 d0 t0] by (simp add: close_inv_def)
  have b: "close_inv s \<longrightarrow> close_events (run es s) \<le> 1"
    using close_inv_run [of s es] by (simp add: close_inv_def)
  have c: "closeEventHasBeenEmitted s \<longrightarrow> emitCloseEvent statusCode s = s"
    by (simp add: emitCloseEvent_def)
  have d: "client s = None \<longrightarrow>
        close deleteSubscription c s = call c None None s
        \<and> filter is_network_action (trace (close deleteSubscription c s))
            = filter is_network_action (trace s)
        \<and> closeSessions (close deleteSubscription c s) = closeSessions s
        \<and> close_events (close deleteSubscription c s) = close_events s"
    by (simp add: close_def call_def close_events_def)
  show ?thesis
    using a b c d by blast
qed

text \<open>
  Close is called twice and the close event is asked for twice: one event. On a session
  without its client, close only calls back.
\<close>

theorem idempotent_close_witness:
  "close_inv (new_session a_client 0 0)
   \<and> trace (run [Close True 1, EmitCloseEvent Good, Close True 2, EmitCloseEvent Good]
        (new_session a_client 0 0))
      = [ClientCloseSession True, Emit_session_closed Good, ClientCloseSession True]
   \<and> close_events (run [Close True 1, EmitCloseEvent Good, Close True 2, EmitCloseEvent Good]
        (new_session a_client 0 0)) = 1
   \<and> client closed_session = None \<and> closeEventHasBeenEmitted closed_session
   \<and> close True 2 closed_session = closed_session\<lparr>trace := [Invoke 2 None None]\<rparr>
   \<and> emitCloseEvent Good closed_session = closed_session
   \<and> client detached_session = None
   \<and> close False 2 detached_session = detached_session\<lparr>trace := [Invoke 2 None None]\<rparr>"
  using idempotent_close
    [where s = "new_session a_client 0 0"
       and es = "[Close True 1, EmitCloseEvent Good, Close True 2, EmitCloseEvent Good]"
       and deleteSubscription = True and c = 2 and ?c0.0 = a_client and ?d0.0 = 0
       and ?t0.0 = 0 and statusCode = Good]
    idempotent_close
    [where s = closed_session and es = "[]"
       and deleteSubscription = True and c = 2 and ?c0.0 = a_client and ?d0.0 = 0
       and ?t0.0 = 0 and statusCode = Good]
    idempotent_close
    [where s = detached_session and es = "[]"
       and deleteSubscription = False and c = 2 and ?c0.0 = a_client and ?d0.0 = 0
       and ?t0.0 = 0 and statusCode = Good]
  by (simp add: new_session_def a_client_def close_def
      emitCloseEvent_def terminatePublishEngine_def
      call_def close_inv_def close_events_def closed_session_def detached_session_def)

text \<open>
  The claim as it is written fails: the second of two calls of \<^verbatim>\<open>close\<close> asks the owning
  client to close the session again when the first has not completed, and also when the
  close event has been emitted meanwhile, as long as the session has its client.
\<close>

theorem idempotent_close_counterexample:
  "trace (run [Close True 1, Close True 2] (new_session a_client 0 0))
     = [ClientCloseSession True, ClientCloseSession True]
   \<and> closeSessions (run [Close True 1, Close True 2] (new_session a_client 0 0)) = [1, 2]
   \<and> filter is_network_action
        (trace (step (Close True 2) closing_session))
      \<noteq> filter is_network_action (trace closing_session)
   \<and> hasBeenClosed emitted_session
   \<and> trace (run [Close True 2] emitted_session)
      = [Emit_session_closed Good, ClientCloseSession True]"
  by (simp add: new_session_def a_client_def close_def terminatePublishEngine_def
      closing_session_def emitted_session_def emitCloseEvent_def hasBeenClosed_def)
section \<open>Session lifetime\<close>

text \<open>
  C8. \<^verbatim>\<open>evaluateRemainingLifetime()\<close> is \<open>max(0, timeout - (now - lastRequestSentTime))\<close>:
  never negative, \<open>0\<close> from \<open>lastRequestSentTime + timeout\<close> on, and non-increasing as
  the clock advances with the other two fields fixed.
\<close>

theorem evaluateRemainingLifetime_law:
  "evaluateRemainingLifetime s = max 0 (timeout s - (now s - lastRequestSentTime s))
   \<and> 0 \<le> evaluateRemainingLifetime s
   \<and> (lastRequestSentTime s + timeout s \<le> now s \<longrightarrow> evaluateRemainingLifetime s = 0)
   \<and> (\<forall>t t'. t \<le> t' \<longrightarrow>
        evaluateRemainingLifetime (s\<lparr>now := t'\<rparr>) \<le> evaluateRemainingLifetime (s\<lparr>now := t\<rparr>))"
  by (auto simp: evaluateRemainingLifetime_def Let_def)

theorem evaluateRemainingLifetime_law_witness:
  "evaluateRemainingLifetime
     ((new_session a_client 1000 1000)
        \<lparr>timeout := 60000, now := 31000\<rparr>) = 30000
   \<and> evaluateRemainingLifetime
     ((new_session a_client 1000 1000)
        \<lparr>timeout := 60000, now := 61000\<rparr>) = 0
   \<and> evaluateRemainingLifetime
     ((new_session a_client 1000 1000)
        \<lparr>timeout := 60000, now := 62000\<rparr>)
     \<le> evaluateRemainingLifetime
     ((new_session a_client 1000 1000)
        \<lparr>timeout := 60000, now := 31000\<rparr>)"
  using evaluateRemainingLifetime_law
    [of "(new_session a_client 1000 1000)
          \<lparr>timeout := 60000, now := 61000\<rparr>"]
  by (simp add: evaluateRemainingLifetime_def new_session_def)

section \<open>Session activation is not repaired\<close>

text \<open>
  C9. The closure of \<^verbatim>\<open>#reprocessRequest\<close> gives a failed ActivateSessionRequest back to
  the caller, also when the error matches \<^verbatim>\<open>BadSessionIdInvalid\<close>: no listener is registered
  for \<^verbatim>\<open>session_restored\<close> and no repair is started (the dispatcher hands such a request
  to \<^verbatim>\<open>_performMessageTransaction\<close> with the caller's own callback in the first place); the
  closure then goes on to the pending queue as after every completion, when the callback
  has returned. For
  a request of any other class a matching error is routed: to the wait for
  \<^verbatim>\<open>session_restored\<close> when the session is reconnecting, to the repair otherwise.
\<close>

theorem activate_session_excluded_from_repair:
  "(request_class request = ActivateSessionRequest \<longrightarrow>
      \<not> routed request err
      \<and> complete (ReprocessClosure n callback) request err response s
          = (if throws s (caller_of callback) err response
             then call (caller_of callback) err response s
             else
               (case pendingTransactions s of
                  [] \<Rightarrow> call (caller_of callback) err response s
                | (r2, c2) # rest \<Rightarrow>
                    reprocessRequest 0 r2 c2
                      ((call (caller_of callback) err response s)\<lparr>pendingTransactions := rest\<rparr>)))
      \<and> session_restored_listeners (complete (ReprocessClosure n callback) request err response s)
          = session_restored_listeners s
      \<and> repairs (complete (ReprocessClosure n callback) request err response s) = repairs s
      \<and> recursive_repair_detector (complete (ReprocessClosure n callback) request err response s)
          = recursive_repair_detector s
      \<and> (\<exists>rest. trace (complete (ReprocessClosure n callback) request err response s)
                  = trace s @ Invoke (caller_of callback) err response # rest)
      \<and> performMessageTransaction request callback s
          = u_performMessageTransaction request (Plain callback) s
      \<and> complete (Plain callback) request err response s
          = call (caller_of callback) err response s)
   \<and> (request_class request \<noteq> ActivateSessionRequest \<and> is_invalid_session_error err \<longrightarrow>
        routed request err
        \<and> complete (ReprocessClosure n callback) request err response s
            = (if isReconnecting s then
                 s\<lparr>session_restored_listeners :=
                      session_restored_listeners s
                        @ [(n, request\<lparr>requestHandle := HandleNotSet\<rparr>, callback)]\<rparr>
               else recreate_session_and_reperform_transaction
                      (request\<lparr>requestHandle := HandleNotSet\<rparr>) callback s))"
proof -
  have a: "\<not> routed request err" if "request_class request = ActivateSessionRequest"
    using that by (simp add: routed_def)
  have b: "performMessageTransaction request callback s
             = u_performMessageTransaction request (Plain callback) s"
    if "request_class request = ActivateSessionRequest"
    using that
    by (auto simp: performMessageTransaction_def privileged_def
        u_performMessageTransaction.simps complete.simps)
  have c: "routed request err"
    if "request_class request \<noteq> ActivateSessionRequest" "is_invalid_session_error err"
    using that by (simp add: routed_def constructor_name_Activate)
  show ?thesis
    using a b c complete_not_routed [of request err n callback response s]
      complete_not_routed_frame [of request err n callback response s]
      complete_routed [of request err n callback response s]
    by (auto simp: complete.simps invoke_call)
qed

theorem activate_session_excluded_from_repair_witness:
  "is_invalid_session_error (Some invalid_session)
   \<and> complete (ReprocessClosure 0 (Caller 7)) (a_request ActivateSessionRequest 1)
        (Some invalid_session) None (new_session a_client 0 0)
      = (new_session a_client 0 0)\<lparr>trace := [Invoke 7 (Some invalid_session) None]\<rparr>
   \<and> complete (ReprocessClosure 0 (Caller 7)) (a_request ReadRequest 1)
        (Some invalid_session) None (new_session a_client 0 0)
      = (new_session a_client 0 0)
          \<lparr>recursive_repair_detector := 1,
           repairs := [((a_request ReadRequest 1)\<lparr>requestHandle := HandleNotSet\<rparr>, Caller 7)],
           trace := [RepairClientSession]\<rparr>"
  using activate_session_excluded_from_repair
    [where request = "a_request ActivateSessionRequest 1" and err = "Some invalid_session"
       and n = 0 and callback = "Caller 7" and response = None and s = "new_session a_client 0 0"]
    activate_session_excluded_from_repair
    [where request = "a_request ReadRequest 1" and err = "Some invalid_session"
       and n = 0 and callback = "Caller 7" and response = None and s = "new_session a_client 0 0"]
    invalid_session_matches
  by (simp add: is_invalid_session_error_def a_request_def new_session_def a_client_def
      call_def caller_of_def isReconnecting_def recreate_session_and_reperform_transaction_def)

section \<open>A broken channel\<close>

text \<open>
  C10. A transaction that reaches \<^verbatim>\<open>_performMessageTransaction\<close> on a session that has its
  client while the secure channel is not open fails at once with
  \<^verbatim>\<open>Invalid Channel BadConnectionClosed\<close>: nothing is handed to the channel, nothing is added
  to the pending queue, and \<open>lastRequestSentTime\<close> keeps its value. (With the closure of
  \<^verbatim>\<open>#reprocessRequest\<close> the pending transactions are popped and fail the same way, one
  after the other until a callback throws: all of them when none does.)
\<close>

theorem broken_channel_fast_failure:
  assumes "client s \<noteq> None" and "\<not> isChannelValid s"
  shows "u_performMessageTransaction request cb s =
           (case cb of
              Plain c \<Rightarrow>
                call (caller_of c) (Some (Error ''Invalid Channel BadConnectionClosed'')) None s
            | ReprocessClosure n c \<Rightarrow>
                fail_in_order (Error ''Invalid Channel BadConnectionClosed'')
                  ((request, c) # pendingTransactions s) s)
         \<and> (\<forall>n c. cb = ReprocessClosure n c
                \<and> (\<forall>t \<in> set ((request, c) # pendingTransactions s).
                      \<not> throws s (caller_of (snd t))
                          (Some (Error ''Invalid Channel BadConnectionClosed'')) None) \<longrightarrow>
                u_performMessageTransaction request cb s
                  = s\<lparr>pendingTransactions := [],
                      trace := trace s @ map (failed_with (Error ''Invalid Channel BadConnectionClosed''))
                                           ((request, c) # pendingTransactions s),
                      exception := False\<rparr>)
         \<and> channel (u_performMessageTransaction request cb s) = channel s
         \<and> filter is_network_action (trace (u_performMessageTransaction request cb s))
             = filter is_network_action (trace s)
         \<and> length (pendingTransactions (u_performMessageTransaction request cb s))
             \<le> length (pendingTransactions s)
         \<and> lastRequestSentTime (u_performMessageTransaction request cb s) = lastRequestSentTime s"
proof -
  have se: "sync_error s = Error ''Invalid Channel BadConnectionClosed''"
    using assms(1) by (auto simp: sync_error_def)
  show ?thesis
  proof (cases cb)
    case (Plain c)
    then show ?thesis
      using assms(2) by (simp add: u_perform_fail se complete.simps invoke_call call_def)
  next
    case (ReprocessClosure n c)
    let ?e = "Error ''Invalid Channel BadConnectionClosed''"
    let ?q = "(request, c) # pendingTransactions s"
    have "u_performMessageTransaction request cb s = reprocessRequest n request c s"
      by (simp add: ReprocessClosure reprocessRequest.simps)
    then have u: "u_performMessageTransaction request cb s = fail_in_order ?e ?q s"
      using assms(2) by (simp add: reprocess_fail se del: fail_in_order.simps)
    have a: "fail_in_order ?e ?q s
        = s\<lparr>pendingTransactions := [], trace := trace s @ map (failed_with ?e) ?q,
              exception := False\<rparr>"
      if "\<forall>t \<in> set ?q. \<not> throws s (caller_of (snd t)) (Some ?e) None"
      using that by (intro fail_in_order_all) simp_all
    have n: "filter is_network_action (trace (fail_in_order ?e ?q s))
          = filter is_network_action (trace s)"
    proof -
      obtain k where "trace (fail_in_order ?e ?q s) = trace s @ map (failed_with ?e) (take k ?q)"
        using fail_in_order_trace by blast
      moreover have "filter is_network_action (map (failed_with ?e) xs) = []" for xs
        by (induction xs) (simp_all add: failed_with_def)
      ultimately show ?thesis by simp
    qed
    have l: "length (pendingTransactions (fail_in_order ?e ?q s))
          \<le> length (pendingTransactions s)"
      using fail_in_order_pending [of ?e "(request, c)" "pendingTransactions s" s]
      by (rule suffix_length_le)
    show ?thesis
      unfolding u
      using a n l by (simp add: ReprocessClosure fail_in_order_frame del: fail_in_order.simps)
  qed
qed

theorem broken_channel_fast_failure_witness:
  "client broken_session \<noteq> None
   \<and> \<not> isChannelValid broken_session
   \<and> u_performMessageTransaction (a_request ReadRequest 1) (Plain (Caller 7)) broken_session
      = broken_session
          \<lparr>trace := [Invoke 7 (Some (Error ''Invalid Channel BadConnectionClosed'')) None]\<rparr>
   \<and> client broken_draining_session \<noteq> None
   \<and> \<not> isChannelValid broken_draining_session
   \<and> pendingTransactions broken_draining_session
       = [(a_request WriteRequest 4, Caller 4), (a_request ReadRequest 5, Caller 5)]
   \<and> \<not> throws broken_draining_session 7
         (Some (Error ''Invalid Channel BadConnectionClosed'')) None
   \<and> \<not> throws broken_draining_session 4
         (Some (Error ''Invalid Channel BadConnectionClosed'')) None
   \<and> \<not> throws broken_draining_session 5
         (Some (Error ''Invalid Channel BadConnectionClosed'')) None
   \<and> u_performMessageTransaction (a_request ReadRequest 1) (ReprocessClosure 0 (Caller 7))
        broken_draining_session
      = broken_draining_session
          \<lparr>pendingTransactions := [],
           trace := [ChannelSend (a_request BrowseRequest 3),
                     Invoke 7 (Some (Error ''Invalid Channel BadConnectionClosed'')) None,
                     Invoke 4 (Some (Error ''Invalid Channel BadConnectionClosed'')) None,
                     Invoke 5 (Some (Error ''Invalid Channel BadConnectionClosed'')) None]\<rparr>
   \<and> client throwing_session \<noteq> None
   \<and> \<not> isChannelValid throwing_session
   \<and> u_performMessageTransaction (a_request ReadRequest 1) (ReprocessClosure 0 (Caller 7))
        throwing_session
      = throwing_session
          \<lparr>pendingTransactions := [(a_request ReadRequest 5, Caller 5)],
           exception := True,
           trace := [ChannelSend (a_request BrowseRequest 3),
                     Invoke 7 (Some (Error ''Invalid Channel BadConnectionClosed'')) None,
                     Invoke 4 (Some (Error ''Invalid Channel BadConnectionClosed'')) None]\<rparr>"
  using broken_channel_fast_failure
    [of broken_session "a_request ReadRequest 1" "Plain (Caller 7)"]
    broken_channel_fast_failure
    [of broken_draining_session "a_request ReadRequest 1" "ReprocessClosure 0 (Caller 7)"]
    broken_channel_fast_failure
    [of throwing_session "a_request ReadRequest 1" "ReprocessClosure 0 (Caller 7)"]
  by (simp add: broken_session_def broken_draining_session_def draining_session_def
      throwing_session_def Let_def
      new_session_def a_client_def a_request_def isChannelValid_def call_def caller_of_def
      performMessageTransaction_def privileged_def reprocess_cases send_to_channel_def
      failed_with_def)

end
